theory Spec2Isabelle
  imports Complex_Main "HOL-Library.AList"
begin

section \<open>Python values used by the scripts\<close>

text \<open>
  The scripts are Python. Exceptions are values of \<open>py_error\<close>; a function that can
  raise returns \<open>py_error + 'a\<close>. A string is a list of 8-bit characters, read as the
  code points U+0000 to U+00FF (Latin-1); \<open>str.strip()\<close> stays inside that range and is
  modelled on all of it. \<open>str.upper()\<close> does not stay inside it (the micro sign goes to
  U+039C and the y with diaeresis to U+0178), so an upper-cased string is a list of code
  points, each a natural number.
\<close>

datatype py_error = KeyError string | ValueError | TypeError | IndexError | ZeroDivisionError

text \<open>\<open>x or ""\<close> for an argument that may be \<open>None\<close>.\<close>

definition or_empty :: "string option \<Rightarrow> string" where
  "or_empty x = (case x of None \<Rightarrow> [] | Some s \<Rightarrow> s)"

text \<open>The characters up to U+00FF for which \<open>str.isspace()\<close> holds: TAB, LF, VT, FF, CR,
  FS, GS, RS, US, the space, NEL (U+0085) and the no-break space (U+00A0).\<close>

definition is_space :: "char \<Rightarrow> bool" where
  "is_space c \<longleftrightarrow> c \<in> set [CHR 0x09, CHR 0x0A, CHR 0x0B, CHR 0x0C, CHR 0x0D,
                           CHR 0x1C, CHR 0x1D, CHR 0x1E, CHR 0x1F, CHR 0x20,
                           CHR 0x85, CHR 0xA0]"

definition strip :: "string \<Rightarrow> string" where
  "strip s = rev (dropWhile is_space (rev (dropWhile is_space s)))"

text \<open>\<open>ord(c)\<close>, and the code points of a string.\<close>

type_synonym code_point = nat

definition code_point_of :: "char \<Rightarrow> code_point" where
  "code_point_of c = of_char c"

definition code_points :: "string \<Rightarrow> code_point list" where
  "code_points s = map code_point_of s"

text \<open>
  \<open>c.upper()\<close> for one character up to U+00FF, by the full case mapping that
  \<open>str.upper()\<close> applies character by character: the letters \<open>a\<close> to \<open>z\<close> and U+00E0 to
  U+00FE (the division sign U+00F7 apart) move down by 32, the sharp s (U+00DF) becomes
  the two letters \<open>SS\<close>, the micro sign (U+00B5) becomes U+039C, the y with diaeresis
  (U+00FF) becomes U+0178, and every other character is unchanged.
\<close>

definition upper_char :: "char \<Rightarrow> code_point list" where
  "upper_char c =
     (let n = code_point_of c
      in if 0x61 \<le> n \<and> n \<le> 0x7A then [n - 0x20]
         else if n = 0xB5 then [0x39C]
         else if n = 0xDF then [0x53, 0x53]
         else if 0xE0 \<le> n \<and> n \<le> 0xFE \<and> n \<noteq> 0xF7 then [n - 0x20]
         else if n = 0xFF then [0x178]
         else [n])"

definition upper :: "string \<Rightarrow> code_point list" where
  "upper s = concat (map upper_char s)"

text \<open>\<open>s.split(sep, 1)\<close> for a one-character separator: at most one cut, at the first
  occurrence.\<close>

definition split_maxsplit1 :: "char \<Rightarrow> string \<Rightarrow> string list" where
  "split_maxsplit1 sep s =
     (if sep \<in> set s
      then [takeWhile (\<lambda>c. c \<noteq> sep) s, tl (dropWhile (\<lambda>c. c \<noteq> sep) s)]
      else [s])"

text \<open>\<open>t.startswith(p)\<close>.\<close>

definition startswith :: "string \<Rightarrow> string \<Rightarrow> bool" where
  "startswith t p \<longleftrightarrow> take (length p) t = p"

section \<open>Identifier classifier (\<open>scripts/id_mapping.py\<close>)\<close>

definition valid_prefixes :: "string list" where
  "valid_prefixes =
     [''NCBIGene'', ''DRUGBANK'', ''CHEMBL.COMPOUND'', ''PUBCHEM.COMPOUND'',
      ''GO'', ''UBERON'', ''REACTOME'', ''MONDO'', ''UMLS'', ''HP'', ''MESH'',
      ''OMIM'', ''DOID'', ''SNOMEDCT'', ''NCIT'', ''HGNC'', ''UNIPROT'', ''CTD'']"

definition source_to_prefix :: "(string \<times> string) list" where
  "source_to_prefix =
     [(''NCBI'', ''NCBIGene''),
      (''DrugBank'', ''DRUGBANK''),
      (''GO'', ''GO''),
      (''UBERON'', ''UBERON''),
      (''REACTOME'', ''REACTOME''),
      (''MONDO'', ''MONDO''),
      (''MONDO_grouped'', ''MONDO''),
      (''HPO'', ''HP''),
      (''CTD'', ''CTD'')]"

text \<open>
  \<open>map_to_curie_with_source\<close>: the four arguments are stripped (\<open>None\<close> counts as the
  empty string); an identifier that contains a colon is split once, and returned
  upper-cased as a whole when its upper-cased prefix is in \<open>valid_prefixes\<close>; otherwise
  the source is looked up in \<open>source_to_prefix\<close>. The unpacking
  \<open>prefix, suffix = node_id.split(":", 1)\<close> raises \<open>ValueError\<close> unless the split has two
  parts. \<open>Inr None\<close> is the return value \<open>None\<close> (unmapped); a returned string is given by
  its code points, since \<open>node_id.upper()\<close> can hold a character above U+00FF.
\<close>

definition map_to_curie_with_source ::
  "string option \<Rightarrow> string option \<Rightarrow> string option \<Rightarrow> string option \<Rightarrow>
     py_error + code_point list option"
where
  "map_to_curie_with_source node_id0 node_type0 node_name0 node_source0 =
     (let node_id = strip (or_empty node_id0);
          node_type = strip (or_empty node_type0);
          node_name = strip (or_empty node_name0);
          node_source = strip (or_empty node_source0);
          already =
            (if CHR '':'' \<in> set node_id
             then (case split_maxsplit1 CHR '':'' node_id of
                     [prefix, suffix] \<Rightarrow>
                       Inr (if upper prefix \<in> set (map code_points valid_prefixes)
                            then Some (upper node_id) else None)
                   | _ \<Rightarrow> Inl ValueError)
             else Inr None)
      in case already of
           Inl e \<Rightarrow> Inl e
         | Inr (Some curie) \<Rightarrow> Inr (Some curie)
         | Inr None \<Rightarrow>
             (case map_of source_to_prefix node_source of
                None \<Rightarrow> Inr None
              | Some prefix \<Rightarrow>
                  if prefix = [] then Inr None
                  else Inr (Some (code_points (prefix @ '':'' @ node_id)))))"

text \<open>
  The pattern \<open>^[A-Za-z.]+:.+$\<close> as \<open>re.match\<close> reads it: a non-empty run of letters
  and dots, a colon, then at least one character none of which is a line feed, up to the
  end of the string or to a final line feed.
\<close>

definition curie_prefix_char :: "code_point \<Rightarrow> bool" where
  "curie_prefix_char c \<longleftrightarrow>
     c \<in> set (code_points ''abcdefghijklmnopqrstuvwxyzABCDEFGHIJKLMNOPQRSTUVWXYZ.'')"

definition matches_curie :: "code_point list \<Rightarrow> bool" where
  "matches_curie s =
     (let p = takeWhile curie_prefix_char s; r = dropWhile curie_prefix_char s
      in p \<noteq> [] \<and>
         (case r of
            [] \<Rightarrow> False
          | c # t \<Rightarrow>
              c = code_point_of CHR '':'' \<and>
              (let u = (if t \<noteq> [] \<and> last t = code_point_of CHR 0x0A then butlast t else t)
               in u \<noteq> [] \<and> code_point_of CHR 0x0A \<notin> set u)))"

text \<open>Rule 1 as the specification words it: the namespace upper-cased, the rest
  unchanged.\<close>

definition spec_rule1 :: "string \<Rightarrow> code_point list" where
  "spec_rule1 raw_id =
     upper (takeWhile (\<lambda>c. c \<noteq> CHR '':'') raw_id) @
     code_points (dropWhile (\<lambda>c. c \<noteq> CHR '':'') raw_id)"

section \<open>Entity records and the store (\<open>scripts/combine_normalized_databases.py\<close>)\<close>

text \<open>
  A database is the dictionary \<open>json.load\<close> returns: an association list in insertion
  order, from the entity key to the entity's JSON object. A JSON object may lack any key,
  so every key is optional and reading a missing one raises \<open>KeyError\<close>.

  \<open>create_entity_from_normalized\<close> stores the input's \<open>equivalent_identifiers\<close> list in
  the new entity without copying it, and the merges append to that list. The lists are
  therefore objects of a store, and a record or an entity holds the address of its list.
  Nothing else is shared and mutated in place: the type lists are only read and rebound
  (\<open>existing.types = list(set(...))\<close>), and each entity owns its \<open>source_databases\<close> set,
  so both are values.
\<close>

record equiv =
  eq_identifier :: "string option"
  eq_label :: "string option"

record id_field =
  id_identifier :: "string option"
  id_label :: "string option"

type_synonym addr = nat

type_synonym store = "addr \<Rightarrow> equiv list"

record entity_data =
  ed_id :: "id_field option"
  ed_equivalent_identifiers :: "addr option"
  ed_type :: "string list option"

type_synonym database = "(string \<times> entity_data) list"

record NormalizedEntity =
  identifier' :: string
  label :: string
  equivalent_identifiers :: addr
  types :: "string list"
  source_databases :: "string set"
  confidence_score :: "real option"

type_synonym combined = "(string \<times> NormalizedEntity) list"

definition py_bind :: "py_error + 'a \<Rightarrow> ('a \<Rightarrow> py_error + 'b) \<Rightarrow> py_error + 'b" where
  "py_bind m f = (case m of Inl e \<Rightarrow> Inl e | Inr x \<Rightarrow> f x)"

text \<open>\<open>d[key]\<close> on a JSON object.\<close>

definition get_key :: "string \<Rightarrow> 'a option \<Rightarrow> py_error + 'a" where
  "get_key key v = (case v of None \<Rightarrow> Inl (KeyError key) | Some x \<Rightarrow> Inr x)"

definition create_entity_from_normalized :: "entity_data \<Rightarrow> string \<Rightarrow> py_error + NormalizedEntity" where
  "create_entity_from_normalized entity_data source_db =
     py_bind (get_key ''id'' (ed_id entity_data)) (\<lambda>i.
     py_bind (get_key ''identifier'' (id_identifier i)) (\<lambda>ident.
     py_bind (get_key ''label'' (id_label i)) (\<lambda>lab.
     py_bind (get_key ''equivalent_identifiers'' (ed_equivalent_identifiers entity_data)) (\<lambda>eqs.
     py_bind (get_key ''type'' (ed_type entity_data)) (\<lambda>tys.
       Inr \<lparr>identifier' = ident, label = lab, equivalent_identifiers = eqs, types = tys,
            source_databases = {source_db}, confidence_score = None\<rparr>)))))"

text \<open>\<open>{eq["identifier"] for eq in xs}\<close>.\<close>

fun equiv_ids :: "equiv list \<Rightarrow> py_error + string set" where
  "equiv_ids [] = Inr {}"
| "equiv_ids (eq # eqs) =
     py_bind (get_key ''identifier'' (eq_identifier eq)) (\<lambda>i.
     py_bind (equiv_ids eqs) (\<lambda>ids. Inr (insert i ids)))"

text \<open>
  The loop \<open>for eq in new: if eq["identifier"] not in existing_equiv: xs.append(eq)\<close>,
  where \<open>xs\<close> is the list at address \<open>a\<close>. The list \<open>new\<close> is read when the loop starts;
  were it the list \<open>xs\<close> itself, every identifier would be in \<open>existing_equiv\<close> and
  nothing would be appended.
\<close>

fun append_new_equivs :: "store \<Rightarrow> addr \<Rightarrow> string set \<Rightarrow> equiv list \<Rightarrow> py_error + store" where
  "append_new_equivs h a existing_equiv [] = Inr h"
| "append_new_equivs h a existing_equiv (eq # eqs) =
     py_bind (get_key ''identifier'' (eq_identifier eq)) (\<lambda>i.
       append_new_equivs (if i \<notin> existing_equiv then h(a := h a @ [eq]) else h)
         a existing_equiv eqs)"

text \<open>\<open>list(set(xs))\<close>: the distinct elements, in an order Python does not fix; here
  the order of \<open>remdups\<close>.\<close>

definition list_of_set :: "string list \<Rightarrow> string list" where
  "list_of_set xs = remdups xs"

section \<open>Union merge\<close>

fun add_primekg :: "database \<Rightarrow> combined \<Rightarrow> py_error + combined" where
  "add_primekg [] combined = Inr combined"
| "add_primekg ((entity_id, entity_data) # rest) combined =
     py_bind (create_entity_from_normalized entity_data ''PrimeKG'') (\<lambda>entity.
       add_primekg rest (AList.update entity_id entity combined))"

definition union_merge_existing ::
  "store \<Rightarrow> NormalizedEntity \<Rightarrow> entity_data \<Rightarrow> py_error + (NormalizedEntity \<times> store)" where
  "union_merge_existing h existing entity_data =
     py_bind (get_key ''type'' (ed_type entity_data)) (\<lambda>tys.
     py_bind (equiv_ids (h (equivalent_identifiers existing))) (\<lambda>existing_equiv.
     py_bind (get_key ''equivalent_identifiers'' (ed_equivalent_identifiers entity_data)) (\<lambda>a.
     py_bind (append_new_equivs h (equivalent_identifiers existing) existing_equiv (h a)) (\<lambda>h'.
       Inr (existing\<lparr>source_databases := insert ''SemMed'' (source_databases existing),
                     types := list_of_set (types existing @ tys)\<rparr>, h')))))"

fun union_add_semmed :: "database \<Rightarrow> combined \<Rightarrow> store \<Rightarrow> py_error + (combined \<times> store)" where
  "union_add_semmed [] combined h = Inr (combined, h)"
| "union_add_semmed ((entity_id, entity_data) # rest) combined h =
     (case map_of combined entity_id of
        Some existing \<Rightarrow>
          py_bind (union_merge_existing h existing entity_data) (\<lambda>(existing', h').
            union_add_semmed rest (AList.update entity_id existing' combined) h')
      | None \<Rightarrow>
          py_bind (create_entity_from_normalized entity_data ''SemMed'') (\<lambda>entity.
            union_add_semmed rest (AList.update entity_id entity combined) h))"

definition union_merge :: "store \<Rightarrow> database \<Rightarrow> database \<Rightarrow> py_error + (combined \<times> store)" where
  "union_merge h primekg_data semmed_data =
     py_bind (add_primekg primekg_data []) (\<lambda>combined.
       union_add_semmed semmed_data combined h)"

section \<open>Intersection merge\<close>

text \<open>The common keys are iterated as a Python set, in no fixed order; here in the
  order of the PrimeKG database.\<close>

definition common_ids :: "database \<Rightarrow> database \<Rightarrow> string list" where
  "common_ids primekg_data semmed_data =
     filter (\<lambda>k. k \<in> fst ` set semmed_data) (remdups (map fst primekg_data))"

definition intersection_entity ::
  "store \<Rightarrow> entity_data \<Rightarrow> entity_data \<Rightarrow> py_error + (NormalizedEntity \<times> store)" where
  "intersection_entity h primekg_entity semmed_entity =
     py_bind (create_entity_from_normalized primekg_entity ''PrimeKG'') (\<lambda>entity.
     py_bind (get_key ''type'' (ed_type semmed_entity)) (\<lambda>semmed_types.
     py_bind (equiv_ids (h (equivalent_identifiers entity))) (\<lambda>existing_equiv.
     py_bind (get_key ''equivalent_identifiers'' (ed_equivalent_identifiers semmed_entity)) (\<lambda>a.
     py_bind (append_new_equivs h (equivalent_identifiers entity) existing_equiv (h a)) (\<lambda>h'.
       Inr (entity\<lparr>source_databases := insert ''SemMed'' (source_databases entity),
                   types := list_of_set (types entity @ semmed_types)\<rparr>, h'))))))"

fun intersection_loop ::
  "database \<Rightarrow> database \<Rightarrow> string list \<Rightarrow> combined \<Rightarrow> store \<Rightarrow> py_error + (combined \<times> store)" where
  "intersection_loop primekg_data semmed_data [] combined h = Inr (combined, h)"
| "intersection_loop primekg_data semmed_data (entity_id # rest) combined h =
     py_bind (get_key entity_id (map_of primekg_data entity_id)) (\<lambda>primekg_entity.
     py_bind (get_key entity_id (map_of semmed_data entity_id)) (\<lambda>semmed_entity.
     py_bind (intersection_entity h primekg_entity semmed_entity) (\<lambda>(entity, h').
       intersection_loop primekg_data semmed_data rest
         (AList.update entity_id entity combined) h')))"

definition intersection_merge :: "store \<Rightarrow> database \<Rightarrow> database \<Rightarrow> py_error + (combined \<times> store)" where
  "intersection_merge h primekg_data semmed_data =
     intersection_loop primekg_data semmed_data (common_ids primekg_data semmed_data) [] h"

section \<open>Confidence-based merge\<close>

text \<open>The scores are Python floats; they are modelled by the real numbers they
  approximate.\<close>

definition calculate_confidence :: "store \<Rightarrow> NormalizedEntity \<Rightarrow> string \<Rightarrow> real \<Rightarrow> real" where
  "calculate_confidence h entity source_db weight =
     (let base_confidence = weight;
          equiv_bonus = min 0.2 (real (length (h (equivalent_identifiers entity))) * 0.05);
          type_bonus = min 0.1 (real (length (types entity)) * 0.01);
          source_bonus = (if source_db = ''PrimeKG'' then 0.1 else 0.05)
      in min 1.0 (base_confidence + equiv_bonus + type_bonus + source_bonus))"

fun confidence_add_primekg :: "store \<Rightarrow> real \<Rightarrow> database \<Rightarrow> combined \<Rightarrow> py_error + combined" where
  "confidence_add_primekg h primekg_weight [] combined = Inr combined"
| "confidence_add_primekg h primekg_weight ((entity_id, entity_data) # rest) combined =
     py_bind (create_entity_from_normalized entity_data ''PrimeKG'') (\<lambda>entity.
       confidence_add_primekg h primekg_weight rest
         (AList.update entity_id
            (entity\<lparr>confidence_score :=
               Some (calculate_confidence h entity ''PrimeKG'' primekg_weight)\<rparr>) combined))"

text \<open>\<open>a > b\<close> on two scores; comparing with \<open>None\<close> raises \<open>TypeError\<close>.\<close>

definition score_gt :: "real option \<Rightarrow> real option \<Rightarrow> py_error + bool" where
  "score_gt a b = (case (a, b) of (Some x, Some y) \<Rightarrow> Inr (x > y) | _ \<Rightarrow> Inl TypeError)"

definition confidence_resolve ::
  "store \<Rightarrow> real \<Rightarrow> NormalizedEntity \<Rightarrow> entity_data \<Rightarrow> py_error + (NormalizedEntity \<times> store)" where
  "confidence_resolve h primekg_weight existing entity_data =
     py_bind (create_entity_from_normalized entity_data ''SemMed'') (\<lambda>created.
       let new_entity = created\<lparr>confidence_score :=
             Some (calculate_confidence h created ''SemMed'' (1 - primekg_weight))\<rparr>
       in py_bind (score_gt (confidence_score new_entity) (confidence_score existing)) (\<lambda>higher.
            if higher
            then Inr (new_entity\<lparr>source_databases := source_databases existing \<union> {''SemMed''}\<rparr>, h)
            else
              py_bind (equiv_ids (h (equivalent_identifiers existing))) (\<lambda>existing_equiv.
              py_bind (append_new_equivs h (equivalent_identifiers existing) existing_equiv
                         (h (equivalent_identifiers new_entity))) (\<lambda>h'.
                Inr (existing\<lparr>source_databases := insert ''SemMed'' (source_databases existing),
                              types := list_of_set (types existing @ types new_entity)\<rparr>, h')))))"

fun confidence_add_semmed ::
  "real \<Rightarrow> database \<Rightarrow> combined \<Rightarrow> store \<Rightarrow> py_error + (combined \<times> store)" where
  "confidence_add_semmed primekg_weight [] combined h = Inr (combined, h)"
| "confidence_add_semmed primekg_weight ((entity_id, entity_data) # rest) combined h =
     (case map_of combined entity_id of
        Some existing \<Rightarrow>
          py_bind (confidence_resolve h primekg_weight existing entity_data) (\<lambda>(entity, h').
            confidence_add_semmed primekg_weight rest (AList.update entity_id entity combined) h')
      | None \<Rightarrow>
          py_bind (create_entity_from_normalized entity_data ''SemMed'') (\<lambda>created.
            confidence_add_semmed primekg_weight rest
              (AList.update entity_id
                 (created\<lparr>confidence_score :=
                    Some (calculate_confidence h created ''SemMed'' (1 - primekg_weight))\<rparr>)
                 combined) h))"

definition confidence_based_merge ::
  "store \<Rightarrow> real \<Rightarrow> database \<Rightarrow> database \<Rightarrow> py_error + (combined \<times> store)" where
  "confidence_based_merge h primekg_weight primekg_data semmed_data =
     py_bind (confidence_add_primekg h primekg_weight primekg_data []) (\<lambda>combined.
       confidence_add_semmed primekg_weight semmed_data combined h)"

section \<open>Type-based merge\<close>

definition type_hierarchy :: "(string \<times> int) list" where
  "type_hierarchy =
     [(''biolink:Gene'', 10),
      (''biolink:Protein'', 9),
      (''biolink:ChemicalEntity'', 8),
      (''biolink:AnatomicalEntity'', 7),
      (''biolink:Disease'', 6),
      (''biolink:OrganismTaxon'', 5),
      (''biolink:NamedThing'', 1)]"

definition get_type_priority :: "string list \<Rightarrow> int" where
  "get_type_priority tys =
     fold (\<lambda>entity_type max_priority.
             fold (\<lambda>(type_name, priority) max_priority.
                     if startswith entity_type type_name then max max_priority priority
                     else max_priority)
                  type_hierarchy max_priority)
          tys 0"

fun collect_entities :: "string \<Rightarrow> database \<Rightarrow> py_error + (string \<times> NormalizedEntity) list" where
  "collect_entities source_db [] = Inr []"
| "collect_entities source_db ((entity_id, entity_data) # rest) =
     py_bind (create_entity_from_normalized entity_data source_db) (\<lambda>entity.
     py_bind (collect_entities source_db rest) (\<lambda>more.
       Inr ((entity_id,
             entity\<lparr>confidence_score := Some (of_int (get_type_priority (types entity)))\<rparr>)
            # more)))"

text \<open>\<open>entity_groups[entity_id].append(entity)\<close> on a \<open>defaultdict(list)\<close>.\<close>

definition group_append ::
  "(string \<times> NormalizedEntity list) list \<Rightarrow> string \<times> NormalizedEntity \<Rightarrow>
   (string \<times> NormalizedEntity list) list" where
  "group_append groups p =
     AList.update (fst p)
       ((case map_of groups (fst p) of None \<Rightarrow> [] | Some es \<Rightarrow> es) @ [snd p]) groups"

text \<open>\<open>max(entities, key=lambda e: e.confidence_score)\<close>: the first entity whose score
  no other exceeds; \<open>ValueError\<close> on an empty list.\<close>

fun max_loop :: "NormalizedEntity \<Rightarrow> NormalizedEntity list \<Rightarrow> py_error + NormalizedEntity" where
  "max_loop best [] = Inr best"
| "max_loop best (e # es) =
     py_bind (score_gt (confidence_score e) (confidence_score best)) (\<lambda>higher.
       max_loop (if higher then e else best) es)"

definition max_by_score :: "NormalizedEntity list \<Rightarrow> py_error + NormalizedEntity" where
  "max_by_score entities =
     (case entities of [] \<Rightarrow> Inl ValueError | e # es \<Rightarrow> max_loop e es)"

definition select_best :: "NormalizedEntity list \<Rightarrow> py_error + NormalizedEntity" where
  "select_best entities =
     (if length entities = 1
      then (case entities of e # _ \<Rightarrow> Inr e | [] \<Rightarrow> Inl IndexError)
      else py_bind (max_by_score entities) (\<lambda>best_entity.
             Inr (fold (\<lambda>entity best.
                          best\<lparr>source_databases :=
                                 source_databases best \<union> source_databases entity\<rparr>)
                       entities best_entity)))"

fun select_groups ::
  "(string \<times> NormalizedEntity list) list \<Rightarrow> combined \<Rightarrow> py_error + combined" where
  "select_groups [] combined = Inr combined"
| "select_groups ((entity_id, entities) # rest) combined =
     py_bind (select_best entities) (\<lambda>best.
       select_groups rest (AList.update entity_id best combined))"

definition type_based_merge :: "database \<Rightarrow> database \<Rightarrow> py_error + combined" where
  "type_based_merge primekg_data semmed_data =
     py_bind (collect_entities ''PrimeKG'' primekg_data) (\<lambda>from_primekg.
     py_bind (collect_entities ''SemMed'' semmed_data) (\<lambda>from_semmed.
       select_groups (fold (\<lambda>p groups. group_append groups p) (from_primekg @ from_semmed) []) []))"

text \<open>
  The type-based merge in the words of the specification. The ranking of one type is the
  largest priority among the entries of the hierarchy that the type starts with, and 0
  when there is none; \<open>with_priority\<close> is the assignment
  \<open>entity.confidence_score = get_type_priority(entity.types)\<close>.
\<close>

definition ranking :: "string \<Rightarrow> int" where
  "ranking t =
     Max (set (0 # map snd (filter (\<lambda>(type_name, priority). startswith t type_name)
                              type_hierarchy)))"

definition with_priority :: "NormalizedEntity \<Rightarrow> NormalizedEntity" where
  "with_priority entity =
     entity\<lparr>confidence_score := Some (of_int (get_type_priority (types entity)))\<rparr>"

section \<open>Statistics (\<open>generate_statistics\<close>)\<close>

text \<open>
  The counters are \<open>defaultdict(int)\<close>s, modelled as maps. The sources of an entity are
  a set, so one pass over them adds one to the counter of each member. The mean is a true
  division of two integers, modelled by the exact quotient; dividing by zero raises.
\<close>

record statistics =
  total_entities :: nat
  entities_by_source :: "string \<rightharpoonup> nat"
  entities_by_type :: "string \<rightharpoonup> nat"
  entities_with_multiple_sources :: nat
  average_equivalent_identifiers :: real
  type_distribution :: "string \<rightharpoonup> nat"

definition incr :: "(string \<rightharpoonup> nat) \<Rightarrow> string \<Rightarrow> (string \<rightharpoonup> nat)" where
  "incr counts k = counts(k \<mapsto> (case counts k of None \<Rightarrow> 0 | Some c \<Rightarrow> c) + 1)"

definition incr_sources :: "(string \<rightharpoonup> nat) \<Rightarrow> string set \<Rightarrow> (string \<rightharpoonup> nat)" where
  "incr_sources counts sources =
     (\<lambda>k. if k \<in> sources then Some ((case counts k of None \<Rightarrow> 0 | Some c \<Rightarrow> c) + 1)
          else counts k)"

text \<open>\<open>s.split(sep)\<close> for a one-character separator.\<close>

fun split_all :: "char \<Rightarrow> string \<Rightarrow> string list" where
  "split_all sep [] = [[]]"
| "split_all sep (c # cs) =
     (if c = sep then [] # split_all sep cs
      else (case split_all sep cs of [] \<Rightarrow> [[c]] | p # ps \<Rightarrow> (c # p) # ps))"

definition base_type_of :: "string \<Rightarrow> py_error + string" where
  "base_type_of entity_type =
     (if CHR '':'' \<in> set entity_type
      then (case split_all CHR '':'' entity_type of
              _ # b # _ \<Rightarrow> Inr b
            | _ \<Rightarrow> Inl IndexError)
      else Inr entity_type)"

fun count_types :: "string list \<Rightarrow> statistics \<Rightarrow> py_error + statistics" where
  "count_types [] stats = Inr stats"
| "count_types (entity_type # rest) stats =
     py_bind (base_type_of entity_type) (\<lambda>base_type.
       count_types rest
         (stats\<lparr>entities_by_type := incr (entities_by_type stats) entity_type,
                type_distribution := incr (type_distribution stats) base_type\<rparr>))"

fun count_entities ::
  "store \<Rightarrow> NormalizedEntity list \<Rightarrow> statistics \<Rightarrow> nat \<Rightarrow> py_error + (statistics \<times> nat)" where
  "count_entities h [] stats total_equiv_identifiers = Inr (stats, total_equiv_identifiers)"
| "count_entities h (entity # rest) stats total_equiv_identifiers =
     (let stats1 = stats\<lparr>entities_by_source :=
                      incr_sources (entities_by_source stats) (source_databases entity)\<rparr>;
          stats2 = (if card (source_databases entity) > 1
                    then stats1\<lparr>entities_with_multiple_sources :=
                                  entities_with_multiple_sources stats1 + 1\<rparr>
                    else stats1)
      in py_bind (count_types (types entity) stats2) (\<lambda>stats3.
           count_entities h rest stats3
             (total_equiv_identifiers + length (h (equivalent_identifiers entity)))))"

definition truediv :: "nat \<Rightarrow> nat \<Rightarrow> py_error + real" where
  "truediv a b = (if b = 0 then Inl ZeroDivisionError else Inr (real a / real b))"

definition generate_statistics :: "store \<Rightarrow> combined \<Rightarrow> py_error + statistics" where
  "generate_statistics h combined_data =
     (let stats = \<lparr>total_entities = length combined_data,
                    entities_by_source = Map.empty,
                    entities_by_type = Map.empty,
                    entities_with_multiple_sources = 0,
                    average_equivalent_identifiers = 0,
                    type_distribution = Map.empty\<rparr>
      in py_bind (count_entities h (map snd combined_data) stats 0)
           (\<lambda>(stats', total_equiv_identifiers).
              py_bind (if combined_data \<noteq> []
                       then truediv total_equiv_identifiers (length combined_data)
                       else Inr 0)
                (\<lambda>average. Inr (stats'\<lparr>average_equivalent_identifiers := average\<rparr>))))"

section \<open>Duplicate identifiers (\<open>scripts/validate_combined_data.py\<close>)\<close>

text \<open>
  The validator reads the combined data back from a JSON file, so the lists are values
  here. Of an entity's JSON object it reads the keys \<open>id\<close> and \<open>equivalent_identifiers\<close>.
  An issue is the message \<open>Identifier i appears in multiple entities: es\<close>, kept as the
  pair of \<open>i\<close> and \<open>es\<close>.
\<close>

record combined_entity =
  ce_id :: "id_field option"
  ce_equivalent_identifiers :: "equiv list option"

definition claim :: "string \<Rightarrow> string \<Rightarrow> (string \<times> string list) list \<Rightarrow> (string \<times> string list) list" where
  "claim ident entity_id identifier_to_entities =
     AList.update ident
       ((case map_of identifier_to_entities ident of None \<Rightarrow> [] | Some es \<Rightarrow> es) @ [entity_id])
       identifier_to_entities"

definition claim_main ::
  "string \<Rightarrow> combined_entity \<Rightarrow> (string \<times> string list) list \<Rightarrow> (string \<times> string list) list" where
  "claim_main entity_id entity_data m =
     (case ce_id entity_data of
        None \<Rightarrow> m
      | Some i \<Rightarrow> (case id_identifier i of None \<Rightarrow> m | Some main_id \<Rightarrow> claim main_id entity_id m))"

definition claim_equivalents ::
  "string \<Rightarrow> combined_entity \<Rightarrow> (string \<times> string list) list \<Rightarrow> (string \<times> string list) list" where
  "claim_equivalents entity_id entity_data m =
     (case ce_equivalent_identifiers entity_data of
        None \<Rightarrow> m
      | Some eqs \<Rightarrow>
          fold (\<lambda>equiv m. case eq_identifier equiv of None \<Rightarrow> m
                                                    | Some i \<Rightarrow> claim i entity_id m) eqs m)"

definition identifier_to_entities :: "(string \<times> combined_entity) list \<Rightarrow> (string \<times> string list) list" where
  "identifier_to_entities data =
     fold (\<lambda>(entity_id, entity_data) m.
             claim_equivalents entity_id entity_data (claim_main entity_id entity_data m))
          data []"

definition check_duplicate_identifiers ::
  "(string \<times> combined_entity) list \<Rightarrow> (string \<times> string list) list" where
  "check_duplicate_identifiers data =
     filter (\<lambda>(ident, entities). length entities > 1) (identifier_to_entities data)"

text \<open>The validator as the specification words it: an identifier is an issue when more
  than one distinct entity key claims it.\<close>

definition claims :: "combined_entity \<Rightarrow> string \<Rightarrow> bool" where
  "claims entity_data ident \<longleftrightarrow>
     (case ce_id entity_data of None \<Rightarrow> False | Some i \<Rightarrow> id_identifier i = Some ident) \<or>
     (case ce_equivalent_identifiers entity_data of
        None \<Rightarrow> False
      | Some eqs \<Rightarrow> Some ident \<in> set (map eq_identifier eqs))"

definition claimed_by :: "(string \<times> combined_entity) list \<Rightarrow> string \<Rightarrow> string list" where
  "claimed_by data ident =
     remdups (map fst (filter (\<lambda>(entity_id, entity_data). claims entity_data ident) data))"

section \<open>Predicates on entities and stores\<close>

text \<open>An entity lists itself when one of its equivalent identifiers carries its own
  identifier; for an input record the own identifier is \<open>id.identifier\<close>.\<close>

definition self_member :: "store \<Rightarrow> NormalizedEntity \<Rightarrow> bool" where
  "self_member h e \<longleftrightarrow>
     Some (identifier' e) \<in> set (map eq_identifier (h (equivalent_identifiers e)))"

definition record_self_member :: "store \<Rightarrow> entity_data \<Rightarrow> bool" where
  "record_self_member h d \<longleftrightarrow>
     (case ed_id d of
        None \<Rightarrow> False
      | Some i \<Rightarrow>
          (case id_identifier i of
             None \<Rightarrow> False
           | Some ident \<Rightarrow>
               (case ed_equivalent_identifiers d of
                  None \<Rightarrow> False
                | Some a \<Rightarrow> Some ident \<in> set (map eq_identifier (h a)))))"

text \<open>A record is complete when \<open>create_entity_from_normalized\<close> finds every key it
  reads.\<close>

definition complete :: "entity_data \<Rightarrow> bool" where
  "complete d \<longleftrightarrow>
     (case ed_id d of None \<Rightarrow> False
                    | Some i \<Rightarrow> id_identifier i \<noteq> None \<and> id_label i \<noteq> None) \<and>
     ed_equivalent_identifiers d \<noteq> None \<and> ed_type d \<noteq> None"

text \<open>
  A database is well formed in a store when each of its records is complete and every
  entry of the record's list of equivalent identifiers has an identifier; \<open>ids_on S h\<close>
  says the latter of the lists at the addresses in \<open>S\<close>, and \<open>addresses\<close> are the lists a
  database points to.
\<close>

definition well_formed :: "store \<Rightarrow> database \<Rightarrow> bool" where
  "well_formed h db \<longleftrightarrow>
     list_all (\<lambda>(k, d). complete d \<and>
                 (case ed_equivalent_identifiers d of
                    None \<Rightarrow> False
                  | Some a \<Rightarrow> list_all (\<lambda>eq. eq_identifier eq \<noteq> None) (h a))) db"

definition ids_on :: "addr set \<Rightarrow> store \<Rightarrow> bool" where
  "ids_on S h \<longleftrightarrow> (\<forall>a \<in> S. \<forall>eq \<in> set (h a). eq_identifier eq \<noteq> None)"

definition addresses :: "database \<Rightarrow> addr set" where
  "addresses db = {a. Some a \<in> set (map (\<lambda>(k, d). ed_equivalent_identifiers d) db)}"

text \<open>The store \<open>h'\<close> extends \<open>h\<close> when every list of \<open>h'\<close> starts with the list \<open>h\<close>
  has at the same address.\<close>

definition store_le :: "store \<Rightarrow> store \<Rightarrow> bool" where
  "store_le h h' \<longleftrightarrow> (\<forall>a. \<exists>ys. h' a = h a @ ys)"

text \<open>A property of entities that does not depend on their types and sources.\<close>

definition stable :: "(NormalizedEntity \<Rightarrow> bool) \<Rightarrow> bool" where
  "stable P \<longleftrightarrow>
     (\<forall>e S T. P e \<longrightarrow> P (e\<lparr>source_databases := S\<rparr>) \<and> P (e\<lparr>types := T\<rparr>))"

section \<open>Example databases\<close>

text \<open>Two small databases that share the key \<open>A:1\<close>; the lists of equivalent identifiers
  are the objects at the addresses 0 to 3 of the store.\<close>

definition ex_store :: store where
  "ex_store =
     (\<lambda>_. [])
       (0 := [\<lparr>eq_identifier = Some ''A:1'', eq_label = Some ''a''\<rparr>],
        1 := [\<lparr>eq_identifier = Some ''C:3'', eq_label = Some ''c''\<rparr>],
        2 := [\<lparr>eq_identifier = Some ''A:1'', eq_label = Some ''a''\<rparr>,
              \<lparr>eq_identifier = Some ''B:2'', eq_label = Some ''b''\<rparr>],
        3 := [\<lparr>eq_identifier = Some ''D:4'', eq_label = Some ''d''\<rparr>])"

definition ex_primekg :: database where
  "ex_primekg =
     [(''A:1'', \<lparr>ed_id = Some \<lparr>id_identifier = Some ''A:1'', id_label = Some ''a''\<rparr>,
                 ed_equivalent_identifiers = Some 0, ed_type = Some [''biolink:NamedThing'']\<rparr>),
      (''C:3'', \<lparr>ed_id = Some \<lparr>id_identifier = Some ''C:3'', id_label = Some ''c''\<rparr>,
                 ed_equivalent_identifiers = Some 1, ed_type = Some [''biolink:Disease'']\<rparr>)]"

definition ex_semmed :: database where
  "ex_semmed =
     [(''A:1'', \<lparr>ed_id = Some \<lparr>id_identifier = Some ''A:1'', id_label = Some ''a''\<rparr>,
                 ed_equivalent_identifiers = Some 2, ed_type = Some [''biolink:Gene'']\<rparr>),
      (''D:4'', \<lparr>ed_id = Some \<lparr>id_identifier = Some ''D:4'', id_label = Some ''d''\<rparr>,
                 ed_equivalent_identifiers = Some 3, ed_type = Some [''biolink:Protein'']\<rparr>)]"

text \<open>What the four strategies return on the example databases (the PrimeKG weight of
  the confidence-based merge is the default, 0.6).\<close>

definition ex_union_out :: combined where
  "ex_union_out =
     [(''A:1'',
       \<lparr>identifier' = ''A:1'', label = ''a'', equivalent_identifiers = 0,
         types = [''biolink:NamedThing'', ''biolink:Gene''],
         source_databases = {''SemMed'', ''PrimeKG''}, confidence_score = None\<rparr>),
      (''C:3'',
       \<lparr>identifier' = ''C:3'', label = ''c'', equivalent_identifiers = 1,
         types = [''biolink:Disease''], source_databases = {''PrimeKG''},
         confidence_score = None\<rparr>),
      (''D:4'',
       \<lparr>identifier' = ''D:4'', label = ''d'', equivalent_identifiers = 3,
         types = [''biolink:Protein''], source_databases = {''SemMed''},
         confidence_score = None\<rparr>)]"

definition ex_intersection_out :: combined where
  "ex_intersection_out =
     [(''A:1'',
       \<lparr>identifier' = ''A:1'', label = ''a'', equivalent_identifiers = 0,
         types = [''biolink:NamedThing'', ''biolink:Gene''],
         source_databases = {''SemMed'', ''PrimeKG''}, confidence_score = None\<rparr>)]"

definition ex_confidence_out :: combined where
  "ex_confidence_out =
     [(''A:1'',
       \<lparr>identifier' = ''A:1'', label = ''a'', equivalent_identifiers = 0,
         types = [''biolink:NamedThing'', ''biolink:Gene''],
         source_databases = {''SemMed'', ''PrimeKG''}, confidence_score = Some (19 / 25)\<rparr>),
      (''C:3'',
       \<lparr>identifier' = ''C:3'', label = ''c'', equivalent_identifiers = 1,
         types = [''biolink:Disease''], source_databases = {''PrimeKG''},
         confidence_score = Some (19 / 25)\<rparr>),
      (''D:4'',
       \<lparr>identifier' = ''D:4'', label = ''d'', equivalent_identifiers = 3,
         types = [''biolink:Protein''], source_databases = {''SemMed''},
         confidence_score = Some (51 / 100)\<rparr>)]"

definition ex_type_based_out :: combined where
  "ex_type_based_out =
     [(''A:1'',
       \<lparr>identifier' = ''A:1'', label = ''a'', equivalent_identifiers = 2,
         types = [''biolink:Gene''],
         source_databases = {''PrimeKG'', ''SemMed''}, confidence_score = Some 10\<rparr>),
      (''C:3'',
       \<lparr>identifier' = ''C:3'', label = ''c'', equivalent_identifiers = 1,
         types = [''biolink:Disease''], source_databases = {''PrimeKG''},
         confidence_score = Some 6\<rparr>),
      (''D:4'',
       \<lparr>identifier' = ''D:4'', label = ''d'', equivalent_identifiers = 3,
         types = [''biolink:Protein''], source_databases = {''SemMed''},
         confidence_score = Some 9\<rparr>)]"

text \<open>The store after the union, intersection and confidence-based merges of the
  example: the list at address 0, which is the PrimeKG record's own list, has grown.\<close>

definition ex_store_after :: store where
  "ex_store_after =
     ex_store (0 := [\<lparr>eq_identifier = Some ''A:1'', eq_label = Some ''a''\<rparr>,
                     \<lparr>eq_identifier = Some ''B:2'', eq_label = Some ''b''\<rparr>])"

text \<open>The result of the confidence-based merge of the example with the PrimeKG weight
  1.5, which leaves the weight -0.5 to SemMed.\<close>

definition ex_confidence_heavy_out :: combined where
  "ex_confidence_heavy_out =
     [(''A:1'',
       \<lparr>identifier' = ''A:1'', label = ''a'', equivalent_identifiers = 0,
         types = [''biolink:NamedThing'', ''biolink:Gene''],
         source_databases = {''SemMed'', ''PrimeKG''}, confidence_score = Some 1\<rparr>),
      (''C:3'',
       \<lparr>identifier' = ''C:3'', label = ''c'', equivalent_identifiers = 1,
         types = [''biolink:Disease''], source_databases = {''PrimeKG''},
         confidence_score = Some 1\<rparr>),
      (''D:4'',
       \<lparr>identifier' = ''D:4'', label = ''d'', equivalent_identifiers = 3,
         types = [''biolink:Protein''], source_databases = {''SemMed''},
         confidence_score = Some (- (39 / 100))\<rparr>)]"

text \<open>A PrimeKG database whose first record has no \<open>type\<close>; its second record is
  complete.\<close>

definition ex_primekg_no_type :: database where
  "ex_primekg_no_type =
     [(''A:1'', \<lparr>ed_id = Some \<lparr>id_identifier = Some ''A:1'', id_label = Some ''a''\<rparr>,
                 ed_equivalent_identifiers = Some 0, ed_type = None\<rparr>),
      (''C:3'', \<lparr>ed_id = Some \<lparr>id_identifier = Some ''C:3'', id_label = Some ''c''\<rparr>,
                 ed_equivalent_identifiers = Some 1, ed_type = Some [''biolink:Disease'']\<rparr>)]"

text \<open>A combined data set of one entity that lists its own identifier among its
  equivalent identifiers, as read back by the validator.\<close>

definition ex_combined_json :: "(string \<times> combined_entity) list" where
  "ex_combined_json =
     [(''A:1'', \<lparr>ce_id = Some \<lparr>id_identifier = Some ''A:1'', id_label = Some ''a''\<rparr>,
                 ce_equivalent_identifiers =
                   Some [\<lparr>eq_identifier = Some ''A:1'', eq_label = Some ''a''\<rparr>]\<rparr>)]"

section \<open>Properties of the classifier\<close>

lemma split_maxsplit1_colon:
  "CHR '':'' \<in> set s \<Longrightarrow>
     \<exists>p q. split_maxsplit1 CHR '':'' s = [p, q] \<and> s = p @ '':'' @ q \<and>
           p = takeWhile (\<lambda>c. c \<noteq> CHR '':'') s"
proof -
  assume mem: "CHR '':'' \<in> set s"
  let ?p = "takeWhile (\<lambda>c. c \<noteq> CHR '':'') s"
  let ?d = "dropWhile (\<lambda>c. c \<noteq> CHR '':'') s"
  from mem have "?d \<noteq> []" by simp
  moreover from this have "hd ?d = CHR '':''" using hd_dropWhile [of "\<lambda>c. c \<noteq> CHR '':''" s] by simp
  ultimately have "?d = CHR '':'' # tl ?d" by (cases ?d) auto
  then have "s = ?p @ '':'' @ tl ?d"
    using takeWhile_dropWhile_id [of "\<lambda>c. c \<noteq> CHR '':''" s] by simp
  with mem show ?thesis by (auto simp: split_maxsplit1_def)
qed

lemma code_points_append: "code_points (a @ b) = code_points a @ code_points b"
  by (simp add: code_points_def)

lemma code_points_Nil_iff: "code_points s = [] \<longleftrightarrow> s = []"
  by (simp add: code_points_def)

lemma code_point_of_inject: "code_point_of a = code_point_of b \<longleftrightarrow> a = b"
  by (simp add: code_point_of_def)

lemma code_point_of_mem: "code_point_of c \<in> set (code_points s) \<longleftrightarrow> c \<in> set s"
  by (auto simp: code_points_def code_point_of_inject)

lemma valid_prefixes_chars:
  "p \<in> set (map code_points valid_prefixes) \<Longrightarrow> p \<noteq> [] \<and> (\<forall>c \<in> set p. curie_prefix_char c)"
  by (auto simp: valid_prefixes_def curie_prefix_char_def code_points_def code_point_of_def)

lemma source_to_prefix_chars:
  "map_of source_to_prefix k = Some p \<Longrightarrow>
     p \<noteq> [] \<and> (\<forall>c \<in> set (code_points p). curie_prefix_char c)"
  by (auto simp: source_to_prefix_def curie_prefix_char_def code_points_def code_point_of_def
      split: if_splits)

lemma upper_append: "upper (a @ b) = upper a @ upper b"
  by (simp add: upper_def)

lemma upper_colon: "upper '':'' = code_points '':''"
  by (simp add: upper_def upper_char_def code_points_def code_point_of_def)

lemma classify_cases:
  "map_to_curie_with_source i t n s =
     (if CHR '':'' \<in> set (strip (or_empty i)) \<and>
         upper (takeWhile (\<lambda>c. c \<noteq> CHR '':'') (strip (or_empty i)))
           \<in> set (map code_points valid_prefixes)
      then Inr (Some (upper (strip (or_empty i))))
      else Inr (map_option (\<lambda>p. code_points (p @ '':'' @ strip (or_empty i)))
                  (map_of source_to_prefix (strip (or_empty s)))))"
proof (cases "CHR '':'' \<in> set (strip (or_empty i))")
  case True
  from split_maxsplit1_colon [OF True] obtain p q where
    "split_maxsplit1 CHR '':'' (strip (or_empty i)) = [p, q]"
    "p = takeWhile (\<lambda>c. c \<noteq> CHR '':'') (strip (or_empty i))" by blast
  with True show ?thesis
    using source_to_prefix_chars [of "strip (or_empty s)"]
    by (auto simp: map_to_curie_with_source_def Let_def split: option.splits)
next
  case False
  then show ?thesis
    using source_to_prefix_chars [of "strip (or_empty s)"]
    by (auto simp: map_to_curie_with_source_def Let_def split: option.splits)
qed

lemma upper_split:
  assumes "CHR '':'' \<in> set s"
  shows "upper s = upper (takeWhile (\<lambda>c. c \<noteq> CHR '':'') s) @ code_points '':'' @
                   upper (tl (dropWhile (\<lambda>c. c \<noteq> CHR '':'') s))"
proof -
  from split_maxsplit1_colon [OF assms] obtain p q where
    pq: "split_maxsplit1 CHR '':'' s = [p, q]" and s: "s = p @ '':'' @ q" by blast
  from pq assms have p: "takeWhile (\<lambda>c. c \<noteq> CHR '':'') s = p"
    and q: "tl (dropWhile (\<lambda>c. c \<noteq> CHR '':'') s) = q"
    by (simp_all add: split_maxsplit1_def)
  have "upper (p @ '':'' @ q) = upper p @ code_points '':'' @ upper q"
    by (simp only: upper_append upper_colon)
  then show ?thesis unfolding p q using s by metis
qed

lemma matches_curieI:
  assumes "p \<noteq> []" and "\<forall>c \<in> set p. curie_prefix_char c"
    and "r \<noteq> []" and "code_point_of CHR 0x0A \<notin> set r"
  shows "matches_curie (p @ code_points '':'' @ r)"
proof -
  let ?colon = "code_point_of CHR '':''"
  have c: "code_points '':'' = [?colon]" by (simp add: code_points_def)
  have nc: "\<not> curie_prefix_char ?colon"
    by (simp add: curie_prefix_char_def code_points_def code_point_of_def)
  have t: "takeWhile curie_prefix_char (p @ [?colon] @ r) = p"
    using assms(2) nc by (simp add: takeWhile_append2)
  have d: "dropWhile curie_prefix_char (p @ [?colon] @ r) = [?colon] @ r"
    using assms(2) nc by (simp add: dropWhile_append2)
  have "last r \<noteq> code_point_of CHR 0x0A" using assms(3,4) last_in_set by metis
  then show ?thesis using assms(1,3,4) unfolding matches_curie_def c t d by (simp add: Let_def)
qed

text \<open>
  The classifier on characters outside ASCII: the no-break space is stripped from the
  identifier and from the source, and \<open>upper\<close> raises U+00E9 to U+00C9.
\<close>

lemma classifier_latin1_examples:
  "map_to_curie_with_source (Some []) None None (Some (CHR 0xA0 # ''NCBI''))
     = Inr (Some (code_points ''NCBIGene:''))"
  "map_to_curie_with_source (Some [CHR 0xA0]) None None (Some ''NCBI'')
     = Inr (Some (code_points ''NCBIGene:''))"
  "map_to_curie_with_source (Some (''mesh:'' @ [CHR 0xE9])) None None None
     = Inr (Some (code_points ''MESH:'' @ [0xC9]))"
  by (simp_all add: classify_cases strip_def is_space_def or_empty_def source_to_prefix_def
      upper_def upper_char_def valid_prefixes_def code_points_def code_point_of_def)

text \<open>
  C1 (as the code has it). The classifier returns for every input, \<open>None\<close> arguments,
  empty and white-space identifiers included, and never raises. What it returns is
  either \<open>None\<close> or a string \<open>p:l\<close> whose namespace \<open>p\<close> is a non-empty run of letters and
  dots; the string matches \<open>^[A-Za-z.]+:.+$\<close> whenever the local part \<open>l\<close> is not empty and
  holds no line feed. An identifier that is empty after stripping is \<^emph>\<open>not\<close> always
  unmapped: it yields \<open>None\<close> only when the stripped source is not in the source table,
  and the bare \<open>prefix:\<close> of the source otherwise. The identifier and the source range
  over the strings of characters up to U+00FF.
\<close>

theorem classifier_total:
  "\<exists>r. map_to_curie_with_source i t n s = Inr r \<and>
       (case r of
          None \<Rightarrow> True
        | Some c \<Rightarrow>
            (\<exists>p l. c = p @ code_points '':'' @ l \<and> p \<noteq> [] \<and>
                   (\<forall>ch \<in> set p. curie_prefix_char ch) \<and>
                   (l \<noteq> [] \<and> code_point_of CHR 0x0A \<notin> set l \<longrightarrow> matches_curie c))) \<and>
       (strip (or_empty i) = [] \<longrightarrow>
          r = map_option (\<lambda>p. code_points (p @ '':''))
                (map_of source_to_prefix (strip (or_empty s))))"
proof (cases "CHR '':'' \<in> set (strip (or_empty i)) \<and>
    upper (takeWhile (\<lambda>c. c \<noteq> CHR '':'') (strip (or_empty i)))
      \<in> set (map code_points valid_prefixes)")
  case True
  let ?s = "strip (or_empty i)"
  let ?p = "upper (takeWhile (\<lambda>c. c \<noteq> CHR '':'') ?s)"
  let ?l = "upper (tl (dropWhile (\<lambda>c. c \<noteq> CHR '':'') ?s))"
  from True have r: "map_to_curie_with_source i t n s = Inr (Some (upper ?s))"
    by (simp add: classify_cases)
  from True have u: "upper ?s = ?p @ code_points '':'' @ ?l" by (simp add: upper_split)
  from True have p: "?p \<noteq> []" "\<forall>ch \<in> set ?p. curie_prefix_char ch"
    using valid_prefixes_chars [of ?p] by simp_all
  have "?l \<noteq> [] \<and> code_point_of CHR 0x0A \<notin> set ?l \<longrightarrow>
      matches_curie (?p @ code_points '':'' @ ?l)"
    using matches_curieI [OF p] by blast
  with u p have "\<exists>p l. upper ?s = p @ code_points '':'' @ l \<and> p \<noteq> [] \<and>
      (\<forall>ch \<in> set p. curie_prefix_char ch) \<and>
      (l \<noteq> [] \<and> code_point_of CHR 0x0A \<notin> set l \<longrightarrow> matches_curie (upper ?s))"
    by metis
  moreover from True have "?s \<noteq> []" by auto
  ultimately show ?thesis using r by simp
next
  case False
  let ?s = "strip (or_empty i)"
  have r: "map_to_curie_with_source i t n s =
      Inr (map_option (\<lambda>p. code_points (p @ '':'' @ ?s))
             (map_of source_to_prefix (strip (or_empty s))))"
    by (subst classify_cases) (simp only: False if_False)
  show ?thesis
  proof (cases "map_of source_to_prefix (strip (or_empty s))")
    case None
    with r show ?thesis by simp
  next
    case (Some p)
    let ?c = "code_points (p @ '':'' @ ?s)"
    from source_to_prefix_chars [OF Some]
    have p: "code_points p \<noteq> []" "\<forall>ch \<in> set (code_points p). curie_prefix_char ch"
      by (simp_all add: code_points_Nil_iff)
    have c: "?c = code_points p @ code_points '':'' @ code_points ?s"
      by (simp only: code_points_append)
    have "code_points ?s \<noteq> [] \<and> code_point_of CHR 0x0A \<notin> set (code_points ?s) \<longrightarrow>
        matches_curie ?c"
      unfolding c using matches_curieI [OF p] by blast
    with p c have "\<exists>q l. ?c = q @ code_points '':'' @ l \<and> q \<noteq> [] \<and>
        (\<forall>ch \<in> set q. curie_prefix_char ch) \<and>
        (l \<noteq> [] \<and> code_point_of CHR 0x0A \<notin> set l \<longrightarrow> matches_curie ?c)"
      by blast
    with r Some show ?thesis by simp
  qed
qed

theorem classifier_total_witness:
  "map_to_curie_with_source (Some ''12345'') (Some ''gene/protein'') None (Some ''NCBI'')
     = Inr (Some (code_points ''NCBIGene:12345'')) \<and>
   map_to_curie_with_source (Some [CHR 0x20, CHR 0xA0]) (Some ''gene/protein'') None
       (Some (CHR 0xA0 # ''NCBI''))
     = Inr (Some (code_points ''NCBIGene:''))"
proof -
  have s: "strip (or_empty (Some [CHR 0x20, CHR 0xA0])) = []"
    "strip (or_empty (Some (CHR 0xA0 # ''NCBI''))) = ''NCBI''"
    by (simp_all add: strip_def is_space_def or_empty_def)
  have m: "map_of source_to_prefix ''NCBI'' = Some ''NCBIGene''"
    by (simp add: source_to_prefix_def)
  have e: "map_to_curie_with_source (Some ''12345'') (Some ''gene/protein'') None (Some ''NCBI'')
      = Inr (Some (code_points ''NCBIGene:12345''))"
    by (simp add: classify_cases strip_def is_space_def or_empty_def source_to_prefix_def)
  from classifier_total [of "Some [CHR 0x20, CHR 0xA0]" "Some ''gene/protein''" None
      "Some (CHR 0xA0 # ''NCBI'')"]
  have "map_to_curie_with_source (Some [CHR 0x20, CHR 0xA0]) (Some ''gene/protein'') None
       (Some (CHR 0xA0 # ''NCBI''))
      = Inr (Some (code_points ''NCBIGene:''))"
    unfolding s m by auto
  with e show ?thesis by simp
qed

text \<open>
  C1 (as stated) fails: with the source \<open>NCBI\<close>, an empty identifier and a blank one are
  both mapped to \<open>NCBIGene:\<close>, which is neither unmapped nor a match of the pattern; and
  an identifier with a line feed inside is mapped to a string that the pattern does not
  match either.
\<close>

theorem classifier_empty_id_counterexample:
  "map_to_curie_with_source (Some []) (Some ''gene/protein'') (Some ''x'') (Some ''NCBI'')
     = Inr (Some (code_points ''NCBIGene:'')) \<and>
   map_to_curie_with_source (Some ''  '') (Some ''gene/protein'') (Some ''x'') (Some ''NCBI'')
     = Inr (Some (code_points ''NCBIGene:'')) \<and>
   \<not> matches_curie (code_points ''NCBIGene:'') \<and>
   map_to_curie_with_source (Some (''1'' @ [CHR 0x0A] @ ''2'')) (Some ''gene/protein'')
       (Some ''x'') (Some ''NCBI'')
     = Inr (Some (code_points (''NCBIGene:1'' @ [CHR 0x0A] @ ''2''))) \<and>
   \<not> matches_curie (code_points (''NCBIGene:1'' @ [CHR 0x0A] @ ''2''))"
  by (simp add: classify_cases strip_def is_space_def or_empty_def source_to_prefix_def
      matches_curie_def curie_prefix_char_def code_points_def code_point_of_def)

text \<open>
  C5 (as the code has it). When the stripped identifier contains a colon and the text
  before its first colon, upper-cased, is literally an entry of the allow-list, the
  classifier returns the whole stripped identifier upper-cased, namespace and local part
  alike, whatever the source is. The identifier ranges over the strings of characters up
  to U+00FF, and \<open>upper\<close> is \<open>str.upper()\<close> on them.
\<close>

theorem rule1_upper_cases_whole_id:
  assumes "CHR '':'' \<in> set (strip (or_empty i))"
    and "upper (takeWhile (\<lambda>c. c \<noteq> CHR '':'') (strip (or_empty i)))
           \<in> set (map code_points valid_prefixes)"
  shows "map_to_curie_with_source i t n s = Inr (Some (upper (strip (or_empty i)))) \<and>
         upper (strip (or_empty i)) =
           upper (takeWhile (\<lambda>c. c \<noteq> CHR '':'') (strip (or_empty i))) @ code_points '':'' @
           upper (tl (dropWhile (\<lambda>c. c \<noteq> CHR '':'') (strip (or_empty i))))"
  using assms upper_split [of "strip (or_empty i)"] by (simp add: classify_cases)

theorem rule1_upper_cases_whole_id_witness:
  "CHR '':'' \<in> set (strip (or_empty (Some ''DRUGBANK:DB001''))) \<and>
   upper (takeWhile (\<lambda>c. c \<noteq> CHR '':'') (strip (or_empty (Some ''DRUGBANK:DB001''))))
     \<in> set (map code_points valid_prefixes) \<and>
   map_to_curie_with_source (Some ''DRUGBANK:DB001'') None None (Some ''NCBI'')
     = Inr (Some (code_points ''DRUGBANK:DB001''))"
proof -
  have s: "strip (or_empty (Some ''DRUGBANK:DB001'')) = ''DRUGBANK:DB001''"
    by (simp add: strip_def is_space_def or_empty_def)
  have h1: "CHR '':'' \<in> set (strip (or_empty (Some ''DRUGBANK:DB001'')))"
    unfolding s by simp
  have h2: "upper (takeWhile (\<lambda>c. c \<noteq> CHR '':'') (strip (or_empty (Some ''DRUGBANK:DB001''))))
     \<in> set (map code_points valid_prefixes)"
    unfolding s
    by (simp add: upper_def upper_char_def valid_prefixes_def code_points_def code_point_of_def)
  have u: "upper ''DRUGBANK:DB001'' = code_points ''DRUGBANK:DB001''"
    by (simp add: upper_def upper_char_def code_points_def code_point_of_def)
  have "map_to_curie_with_source (Some ''DRUGBANK:DB001'') None None (Some ''NCBI'')
     = Inr (Some (upper (strip (or_empty (Some ''DRUGBANK:DB001'')))))"
    using rule1_upper_cases_whole_id [OF h1 h2, of None None "Some ''NCBI''"]
    by (rule conjunct1)
  then have "map_to_curie_with_source (Some ''DRUGBANK:DB001'') None None (Some ''NCBI'')
     = Inr (Some (code_points ''DRUGBANK:DB001''))"
    by (simp only: s u)
  with h1 h2 show ?thesis by (intro conjI)
qed

text \<open>
  C5 (as stated) fails: the namespace of \<open>drugbank:db001\<close> is in the allow-list when
  compared without regard to case, and the classifier upper-cases the local part too,
  where rule 1 of the specification leaves it unchanged.
\<close>

theorem rule1_local_part_counterexample:
  "upper ''drugbank'' \<in> set (map upper valid_prefixes) \<and>
   map_to_curie_with_source (Some ''drugbank:db001'') None None (Some ''NCBI'')
     = Inr (Some (code_points ''DRUGBANK:DB001'')) \<and>
   spec_rule1 ''drugbank:db001'' = code_points ''DRUGBANK:db001'' \<and>
   code_points ''DRUGBANK:DB001'' \<noteq> spec_rule1 ''drugbank:db001''"
  by (simp add: classify_cases strip_def is_space_def or_empty_def
      upper_def upper_char_def valid_prefixes_def spec_rule1_def code_points_def
      code_point_of_def)

section \<open>Properties of the merge engine\<close>

lemma py_bind_Inr:
  "py_bind m f = Inr y \<longleftrightarrow> (\<exists>x. m = Inr x \<and> f x = Inr y)"
  by (cases m) (simp_all add: py_bind_def)

lemma update_set_cases:
  "(k, v) \<in> set (AList.update k' v' al) \<Longrightarrow> (k, v) = (k', v') \<or> (k, v) \<in> set al"
  by (induction al) (auto split: if_splits)

lemma length_keys_card:
  "distinct (map fst al) \<Longrightarrow> length al = card (fst ` set al)"
  using distinct_card [of "map fst al"] by simp

lemma add_primekg_keys:
  "add_primekg db c = Inr c' \<Longrightarrow>
     fst ` set c' = fst ` set c \<union> fst ` set db \<and>
     (distinct (map fst c) \<longrightarrow> distinct (map fst c'))"
proof (induction db arbitrary: c)
  case Nil
  then show ?case by simp
next
  case (Cons p db)
  obtain k d where p: "p = (k, d)" by (cases p)
  from Cons.prems obtain e where
    "add_primekg db (AList.update k e c) = Inr c'"
    by (auto simp: p py_bind_Inr)
  from Cons.IH [OF this] show ?case
    by (auto simp: p AList.dom_update AList.distinct_update)
qed

lemma union_add_semmed_keys:
  "union_add_semmed db c h = Inr (c', h') \<Longrightarrow>
     fst ` set c' = fst ` set c \<union> fst ` set db \<and>
     (distinct (map fst c) \<longrightarrow> distinct (map fst c'))"
proof (induction db arbitrary: c h)
  case Nil
  then show ?case by simp
next
  case (Cons p db)
  obtain k d where p: "p = (k, d)" by (cases p)
  from Cons.prems obtain e h1 where
    "union_add_semmed db (AList.update k e c) h1 = Inr (c', h')"
    by (auto simp: p py_bind_Inr split: option.splits)
  from Cons.IH [OF this] show ?case
    by (auto simp: p AList.dom_update AList.distinct_update)
qed

lemma intersection_loop_keys:
  "intersection_loop A B ks c h = Inr (c', h') \<Longrightarrow>
     fst ` set c' = fst ` set c \<union> set ks \<and>
     (distinct (map fst c) \<longrightarrow> distinct (map fst c'))"
proof (induction ks arbitrary: c h)
  case Nil
  then show ?case by simp
next
  case (Cons k ks)
  from Cons.prems obtain e h1 where
    "intersection_loop A B ks (AList.update k e c) h1 = Inr (c', h')"
    by (auto simp: py_bind_Inr)
  from Cons.IH [OF this] show ?case
    by (auto simp: AList.dom_update AList.distinct_update)
qed

lemma intersection_merge_keys:
  assumes "intersection_merge h A B = Inr (c, h')"
  shows "fst ` set c = fst ` set A \<inter> fst ` set B" and "distinct (map fst c)"
  using intersection_loop_keys [OF assms [unfolded intersection_merge_def]]
  by (auto simp: common_ids_def)

lemma union_merge_keys_size:
  assumes "union_merge h primekg_data semmed_data = Inr (combined, h')"
  shows "fst ` set combined = fst ` set primekg_data \<union> fst ` set semmed_data \<and>
         distinct (map fst combined) \<and>
         (distinct (map fst primekg_data) \<and> distinct (map fst semmed_data) \<longrightarrow>
            length combined + card (fst ` set primekg_data \<inter> fst ` set semmed_data)
              = length primekg_data + length semmed_data \<and>
            (\<forall>common hi. intersection_merge h primekg_data semmed_data = Inr (common, hi) \<longrightarrow>
               length combined + length common = length primekg_data + length semmed_data))"
proof -
  let ?A = "fst ` set primekg_data" and ?B = "fst ` set semmed_data"
  from assms obtain c1 where
    c1: "add_primekg primekg_data [] = Inr c1"
    and c2: "union_add_semmed semmed_data c1 h = Inr (combined, h')"
    by (auto simp: union_merge_def py_bind_Inr)
  from add_primekg_keys [OF c1] have k1: "fst ` set c1 = ?A" "distinct (map fst c1)"
    by simp_all
  from union_add_semmed_keys [OF c2] k1
  have k: "fst ` set combined = ?A \<union> ?B" and d: "distinct (map fst combined)"
    by simp_all
  have size: "length combined + card (?A \<inter> ?B) = length primekg_data + length semmed_data"
    if "distinct (map fst primekg_data)" "distinct (map fst semmed_data)"
  proof -
    have "length combined = card (?A \<union> ?B)" using d k by (simp add: length_keys_card)
    moreover have "card (?A \<union> ?B) + card (?A \<inter> ?B) = card ?A + card ?B"
      using card_Un_Int [of ?A ?B] by simp
    ultimately show ?thesis using that by (simp add: length_keys_card)
  qed
  have "length combined + length common = length primekg_data + length semmed_data"
    if "distinct (map fst primekg_data)" "distinct (map fst semmed_data)"
      "intersection_merge h primekg_data semmed_data = Inr (common, hi)" for common hi
    using size [OF that(1,2)] intersection_merge_keys [OF that(3)]
    by (simp add: length_keys_card)
  with k d size show ?thesis by blast
qed

lemma ex_union_merge:
  "union_merge ex_store ex_primekg ex_semmed = Inr (ex_union_out, ex_store_after)"
  by (simp add: union_merge_def ex_store_def ex_primekg_def ex_semmed_def py_bind_def
      get_key_def create_entity_from_normalized_def union_merge_existing_def list_of_set_def
      ex_union_out_def ex_store_after_def)

lemma ex_databases:
  "distinct (map fst ex_primekg)" "distinct (map fst ex_semmed)"
  "length ex_primekg = 2" "length ex_semmed = 2"
  "fst ` set ex_primekg = {''A:1'', ''C:3''}" "fst ` set ex_semmed = {''A:1'', ''D:4''}"
  by (simp_all add: ex_primekg_def ex_semmed_def)

lemma store_le_refl: "store_le h h"
  by (simp add: store_le_def)

lemma store_le_trans: "store_le h1 h2 \<Longrightarrow> store_le h2 h3 \<Longrightarrow> store_le h1 h3"
  unfolding store_le_def
proof
  fix a
  assume 1: "\<forall>a. \<exists>ys. h2 a = h1 a @ ys" and 2: "\<forall>a. \<exists>ys. h3 a = h2 a @ ys"
  from 1 obtain ys where "h2 a = h1 a @ ys" by blast
  moreover from 2 obtain zs where "h3 a = h2 a @ zs" by blast
  ultimately have "h3 a = h1 a @ (ys @ zs)" by simp
  then show "\<exists>ys. h3 a = h1 a @ ys" ..
qed

lemma append_new_equivs_store:
  "append_new_equivs h a ex eqs = Inr h' \<Longrightarrow>
     h' = h(a := h a @ filter (\<lambda>eq. \<forall>i. eq_identifier eq = Some i \<longrightarrow> i \<notin> ex) eqs)"
proof (induction eqs arbitrary: h)
  case Nil
  then show ?case by simp
next
  case (Cons eq eqs)
  from Cons.prems obtain i where i: "eq_identifier eq = Some i"
    and r: "append_new_equivs (if i \<notin> ex then h(a := h a @ [eq]) else h) a ex eqs = Inr h'"
    by (auto simp: py_bind_Inr get_key_def split: option.splits)
  from Cons.IH [OF r] i show ?case by auto
qed

lemma append_new_equivs_le:
  "append_new_equivs h a ex eqs = Inr h' \<Longrightarrow> store_le h h'"
  by (drule append_new_equivs_store) (simp add: store_le_def)

lemma self_member_mono: "store_le h h' \<Longrightarrow> self_member h e \<Longrightarrow> self_member h' e"
  unfolding store_le_def self_member_def
  by (metis Un_iff map_append set_append)

lemma record_self_member_mono:
  "store_le h h' \<Longrightarrow> record_self_member h d \<Longrightarrow> record_self_member h' d"
  unfolding store_le_def record_self_member_def
  by (auto split: option.splits) (metis Un_iff image_eqI set_append)

lemma create_entity_self_member:
  "create_entity_from_normalized d src = Inr e \<Longrightarrow> record_self_member h d \<Longrightarrow> self_member h e"
  by (auto simp: create_entity_from_normalized_def py_bind_Inr get_key_def self_member_def
      record_self_member_def split: option.splits)

lemma create_entity_score:
  "create_entity_from_normalized d src = Inr e \<Longrightarrow> confidence_score e = None"
  by (auto simp: create_entity_from_normalized_def py_bind_Inr get_key_def split: option.splits)

lemma stableD:
  "stable P \<Longrightarrow> P e \<Longrightarrow> P (e\<lparr>source_databases := S, types := T\<rparr>)"
  "stable P \<Longrightarrow> P e \<Longrightarrow> P (e\<lparr>source_databases := S\<rparr>)"
  unfolding stable_def by blast+

lemma stable_self_member: "stable (self_member h)"
  by (simp add: stable_def self_member_def)

subsection \<open>Union merge: invariants of the two loops\<close>

lemma add_primekg_inv:
  assumes "add_primekg db c = Inr c'"
    and "\<forall>(k, e) \<in> set c. P e"
    and "\<And>d e. d \<in> snd ` set db \<Longrightarrow> create_entity_from_normalized d ''PrimeKG'' = Inr e \<Longrightarrow> P e"
  shows "\<forall>(k, e) \<in> set c'. P e"
  using assms
proof (induction db arbitrary: c)
  case Nil
  then show ?case by simp
next
  case (Cons p db)
  obtain k d where p: "p = (k, d)" by (cases p)
  from Cons.prems(1) obtain e where e: "create_entity_from_normalized d ''PrimeKG'' = Inr e"
    and r: "add_primekg db (AList.update k e c) = Inr c'"
    by (auto simp: p py_bind_Inr)
  from e Cons.prems(3) [of d e] have "P e" by (simp add: p)
  with Cons.prems(2) have inv: "\<forall>(k, e) \<in> set (AList.update k e c). P e"
    by (auto dest: update_set_cases)
  show ?case
  proof (rule Cons.IH [OF r inv])
    fix d e
    assume "d \<in> snd ` set db" "create_entity_from_normalized d ''PrimeKG'' = Inr e"
    then show "P e" using Cons.prems(3) [of d e] by simp
  qed
qed

lemma union_merge_existing_inv:
  assumes "union_merge_existing h existing d = Inr (e', h')"
  shows "store_le h h'" and "stable P \<Longrightarrow> P existing \<Longrightarrow> P e'"
  using assms
  by (auto simp: union_merge_existing_def py_bind_Inr stableD dest: append_new_equivs_le)

lemma union_add_semmed_inv:
  assumes "union_add_semmed db c h = Inr (c', h')"
    and "stable P"
    and "\<forall>(k, e) \<in> set c. P e"
    and "\<And>d e. d \<in> snd ` set db \<Longrightarrow> create_entity_from_normalized d ''SemMed'' = Inr e \<Longrightarrow> P e"
  shows "(\<forall>(k, e) \<in> set c'. P e) \<and> store_le h h'"
  using assms
proof (induction db arbitrary: c h)
  case Nil
  then show ?case by (simp add: store_le_refl)
next
  case (Cons p db)
  obtain k d where p: "p = (k, d)" by (cases p)
  from Cons.prems(1) obtain e h1 where
    r: "union_add_semmed db (AList.update k e c) h1 = Inr (c', h')"
    and e: "(\<exists>ex. map_of c k = Some ex \<and> union_merge_existing h ex d = Inr (e, h1)) \<or>
            (create_entity_from_normalized d ''SemMed'' = Inr e \<and> h1 = h)"
    by (auto simp: p py_bind_Inr split: option.splits)
  from e have "P e \<and> store_le h h1"
  proof
    assume "\<exists>ex. map_of c k = Some ex \<and> union_merge_existing h ex d = Inr (e, h1)"
    then obtain ex where ex: "map_of c k = Some ex" "union_merge_existing h ex d = Inr (e, h1)"
      by blast
    from ex(1) have "(k, ex) \<in> set c" by (rule map_of_SomeD)
    with Cons.prems(3) have "P ex" by auto
    with union_merge_existing_inv [OF ex(2)] Cons.prems(2) show ?thesis by simp
  next
    assume "create_entity_from_normalized d ''SemMed'' = Inr e \<and> h1 = h"
    with Cons.prems(4) [of d e] show ?thesis by (simp add: p store_le_refl)
  qed
  with Cons.prems(3) have inv: "\<forall>(k, e) \<in> set (AList.update k e c). P e"
    by (auto dest: update_set_cases)
  have "(\<forall>(k, e) \<in> set c'. P e) \<and> store_le h1 h'"
  proof (rule Cons.IH [OF r Cons.prems(2) inv])
    fix d e
    assume "d \<in> snd ` set db" "create_entity_from_normalized d ''SemMed'' = Inr e"
    then show "P e" using Cons.prems(4) [of d e] by simp
  qed
  with \<open>P e \<and> store_le h h1\<close> show ?case by (blast intro: store_le_trans)
qed

lemma union_merge_inv:
  assumes "union_merge h A B = Inr (c', h')"
    and "stable P"
    and "\<And>d e. d \<in> snd ` set A \<Longrightarrow> create_entity_from_normalized d ''PrimeKG'' = Inr e \<Longrightarrow> P e"
    and "\<And>d e. d \<in> snd ` set B \<Longrightarrow> create_entity_from_normalized d ''SemMed'' = Inr e \<Longrightarrow> P e"
  shows "(\<forall>(k, e) \<in> set c'. P e) \<and> store_le h h'"
proof -
  from assms(1) obtain c1 where
    c1: "add_primekg A [] = Inr c1" and c2: "union_add_semmed B c1 h = Inr (c', h')"
    by (auto simp: union_merge_def py_bind_Inr)
  have inv: "\<forall>(k, e) \<in> set c1. P e"
    by (rule add_primekg_inv [OF c1]) (simp, rule assms(3))
  show ?thesis by (rule union_add_semmed_inv [OF c2 assms(2) inv]) (rule assms(4))
qed

subsection \<open>Intersection merge: invariant of the loop\<close>

lemma intersection_entity_inv:
  assumes "intersection_entity h da db = Inr (e', h')"
  shows "store_le h h'"
    and "stable P \<Longrightarrow> (\<And>e. create_entity_from_normalized da ''PrimeKG'' = Inr e \<Longrightarrow> P e) \<Longrightarrow> P e'"
  using assms
  by (auto simp: intersection_entity_def py_bind_Inr stableD dest: append_new_equivs_le)

lemma intersection_loop_inv:
  assumes "intersection_loop A B ks c h = Inr (c', h')"
    and "stable P"
    and "\<forall>(k, e) \<in> set c. P e"
    and "\<And>d e. d \<in> snd ` set A \<Longrightarrow> create_entity_from_normalized d ''PrimeKG'' = Inr e \<Longrightarrow> P e"
  shows "(\<forall>(k, e) \<in> set c'. P e) \<and> store_le h h'"
  using assms(1,3)
proof (induction ks arbitrary: c h)
  case Nil
  then show ?case by (simp add: store_le_refl)
next
  case (Cons k ks)
  from Cons.prems(1) obtain da db e h1 where
    da: "map_of A k = Some da" and
    ie: "intersection_entity h da db = Inr (e, h1)" and
    r: "intersection_loop A B ks (AList.update k e c) h1 = Inr (c', h')"
    by (auto simp: py_bind_Inr get_key_def split: option.splits)
  from da have "da \<in> snd ` set A" by (metis map_of_SomeD snd_conv image_eqI)
  with intersection_entity_inv [OF ie] assms(2,4) have e: "P e" "store_le h h1" by blast+
  with Cons.prems(2) have inv: "\<forall>(k, e) \<in> set (AList.update k e c). P e"
    by (auto dest: update_set_cases)
  from Cons.IH [OF r inv] e(2) show ?case by (blast intro: store_le_trans)
qed

lemma intersection_merge_inv:
  assumes "intersection_merge h A B = Inr (c', h')"
    and "stable P"
    and "\<And>d e. d \<in> snd ` set A \<Longrightarrow> create_entity_from_normalized d ''PrimeKG'' = Inr e \<Longrightarrow> P e"
  shows "(\<forall>(k, e) \<in> set c'. P e) \<and> store_le h h'"
  by (rule intersection_loop_inv [OF assms(1) [unfolded intersection_merge_def] assms(2)])
     (simp, rule assms(3))

subsection \<open>Confidence-based merge: invariants of the two loops\<close>

lemma confidence_add_primekg_inv:
  assumes "confidence_add_primekg h w db c = Inr c'"
    and "\<forall>(k, e) \<in> set c. P e"
    and "\<And>d e. d \<in> snd ` set db \<Longrightarrow> create_entity_from_normalized d ''PrimeKG'' = Inr e \<Longrightarrow>
           P (e\<lparr>confidence_score := Some (calculate_confidence h e ''PrimeKG'' w)\<rparr>)"
  shows "\<forall>(k, e) \<in> set c'. P e"
  using assms
proof (induction db arbitrary: c)
  case Nil
  then show ?case by simp
next
  case (Cons p db)
  obtain k d where p: "p = (k, d)" by (cases p)
  from Cons.prems(1) obtain e where e: "create_entity_from_normalized d ''PrimeKG'' = Inr e"
    and r: "confidence_add_primekg h w db
              (AList.update k (e\<lparr>confidence_score :=
                 Some (calculate_confidence h e ''PrimeKG'' w)\<rparr>) c) = Inr c'"
    by (auto simp: p py_bind_Inr)
  from e Cons.prems(3) [of d e]
  have "P (e\<lparr>confidence_score := Some (calculate_confidence h e ''PrimeKG'' w)\<rparr>)"
    by (simp add: p)
  with Cons.prems(2) have inv: "\<forall>(k, e) \<in> set (AList.update k
      (e\<lparr>confidence_score := Some (calculate_confidence h e ''PrimeKG'' w)\<rparr>) c). P e"
    by (auto dest: update_set_cases)
  show ?case
  proof (rule Cons.IH [OF r inv])
    fix d e
    assume "d \<in> snd ` set db" "create_entity_from_normalized d ''PrimeKG'' = Inr e"
    then show "P (e\<lparr>confidence_score := Some (calculate_confidence h e ''PrimeKG'' w)\<rparr>)"
      using Cons.prems(3) [of d e] by simp
  qed
qed

lemma confidence_resolve_inv:
  assumes "confidence_resolve h w existing d = Inr (e', h')"
  shows "store_le h h'"
    and "stable P \<Longrightarrow> P existing \<Longrightarrow>
         (\<And>e. create_entity_from_normalized d ''SemMed'' = Inr e \<Longrightarrow>
            P (e\<lparr>confidence_score := Some (calculate_confidence h e ''SemMed'' (1 - w))\<rparr>)) \<Longrightarrow>
         P e'"
  using assms
  by (auto simp: confidence_resolve_def py_bind_Inr Let_def stableD store_le_refl
      dest: append_new_equivs_le split: if_splits)

lemma confidence_add_semmed_inv:
  assumes "confidence_add_semmed w db c h = Inr (c', h')"
    and "stable P"
    and "\<forall>(k, e) \<in> set c. P e"
    and "\<And>d e h. d \<in> snd ` set db \<Longrightarrow> create_entity_from_normalized d ''SemMed'' = Inr e \<Longrightarrow>
           P (e\<lparr>confidence_score := Some (calculate_confidence h e ''SemMed'' (1 - w))\<rparr>)"
  shows "(\<forall>(k, e) \<in> set c'. P e) \<and> store_le h h'"
  using assms
proof (induction db arbitrary: c h)
  case Nil
  then show ?case by (simp add: store_le_refl)
next
  case (Cons p db)
  obtain k d where p: "p = (k, d)" by (cases p)
  from Cons.prems(1) obtain e h1 where
    r: "confidence_add_semmed w db (AList.update k e c) h1 = Inr (c', h')"
    and e: "(\<exists>ex. map_of c k = Some ex \<and> confidence_resolve h w ex d = Inr (e, h1)) \<or>
            ((\<exists>cr. create_entity_from_normalized d ''SemMed'' = Inr cr \<and>
                e = cr\<lparr>confidence_score :=
                      Some (calculate_confidence h cr ''SemMed'' (1 - w))\<rparr>) \<and> h1 = h)"
    by (auto simp: p py_bind_Inr split: option.splits)
  from e have pe: "P e \<and> store_le h h1"
  proof
    assume "\<exists>ex. map_of c k = Some ex \<and> confidence_resolve h w ex d = Inr (e, h1)"
    then obtain ex where ex: "map_of c k = Some ex" "confidence_resolve h w ex d = Inr (e, h1)"
      by blast
    from ex(1) have "(k, ex) \<in> set c" by (rule map_of_SomeD)
    with Cons.prems(3) have "P ex" by auto
    moreover have "P (cr\<lparr>confidence_score :=
        Some (calculate_confidence h cr ''SemMed'' (1 - w))\<rparr>)"
      if "create_entity_from_normalized d ''SemMed'' = Inr cr" for cr
      using Cons.prems(4) [of d cr h] that by (simp add: p)
    ultimately show ?thesis
      using confidence_resolve_inv [OF ex(2)] Cons.prems(2) by blast
  next
    assume "(\<exists>cr. create_entity_from_normalized d ''SemMed'' = Inr cr \<and>
                e = cr\<lparr>confidence_score :=
                      Some (calculate_confidence h cr ''SemMed'' (1 - w))\<rparr>) \<and> h1 = h"
    then show ?thesis using Cons.prems(4) [of d _ h] by (auto simp: p store_le_refl)
  qed
  with Cons.prems(3) have inv: "\<forall>(k, e) \<in> set (AList.update k e c). P e"
    by (auto dest: update_set_cases)
  have "(\<forall>(k, e) \<in> set c'. P e) \<and> store_le h1 h'"
  proof (rule Cons.IH [OF r Cons.prems(2) inv])
    fix d e h
    assume "d \<in> snd ` set db" "create_entity_from_normalized d ''SemMed'' = Inr e"
    then show "P (e\<lparr>confidence_score := Some (calculate_confidence h e ''SemMed'' (1 - w))\<rparr>)"
      using Cons.prems(4) [of d e h] by simp
  qed
  with pe show ?case by (blast intro: store_le_trans)
qed

lemma confidence_based_merge_inv:
  assumes "confidence_based_merge h w A B = Inr (c', h')"
    and "stable P"
    and "\<And>d e. d \<in> snd ` set A \<Longrightarrow> create_entity_from_normalized d ''PrimeKG'' = Inr e \<Longrightarrow>
           P (e\<lparr>confidence_score := Some (calculate_confidence h e ''PrimeKG'' w)\<rparr>)"
    and "\<And>d e h. d \<in> snd ` set B \<Longrightarrow> create_entity_from_normalized d ''SemMed'' = Inr e \<Longrightarrow>
           P (e\<lparr>confidence_score := Some (calculate_confidence h e ''SemMed'' (1 - w))\<rparr>)"
  shows "(\<forall>(k, e) \<in> set c'. P e) \<and> store_le h h'"
proof -
  from assms(1) obtain c1 where
    c1: "confidence_add_primekg h w A [] = Inr c1"
    and c2: "confidence_add_semmed w B c1 h = Inr (c', h')"
    by (auto simp: confidence_based_merge_def py_bind_Inr)
  have inv: "\<forall>(k, e) \<in> set c1. P e"
    by (rule confidence_add_primekg_inv [OF c1]) (simp, rule assms(3))
  show ?thesis by (rule confidence_add_semmed_inv [OF c2 assms(2) inv]) (rule assms(4))
qed

subsection \<open>Type-based merge: invariants\<close>

lemma collect_entities_inv:
  assumes "collect_entities src db = Inr xs"
    and "\<And>d e. d \<in> snd ` set db \<Longrightarrow> create_entity_from_normalized d src = Inr e \<Longrightarrow>
           P (e\<lparr>confidence_score := Some (of_int (get_type_priority (types e)))\<rparr>)"
  shows "\<forall>(k, e) \<in> set xs. P e"
  using assms
proof (induction db arbitrary: xs)
  case Nil
  then show ?case by simp
next
  case (Cons p db)
  obtain k d where p: "p = (k, d)" by (cases p)
  from Cons.prems(1) obtain e more where e: "create_entity_from_normalized d src = Inr e"
    and m: "collect_entities src db = Inr more"
    and xs: "xs = (k, e\<lparr>confidence_score := Some (of_int (get_type_priority (types e)))\<rparr>) # more"
    by (auto simp: p py_bind_Inr)
  have "\<forall>(k, e) \<in> set more. P e"
  proof (rule Cons.IH [OF m])
    fix d e
    assume "d \<in> snd ` set db" "create_entity_from_normalized d src = Inr e"
    then show "P (e\<lparr>confidence_score := Some (of_int (get_type_priority (types e)))\<rparr>)"
      using Cons.prems(2) [of d e] by simp
  qed
  moreover from e Cons.prems(2) [of d e]
  have "P (e\<lparr>confidence_score := Some (of_int (get_type_priority (types e)))\<rparr>)"
    by (simp add: p)
  ultimately show ?case by (simp add: xs)
qed

lemma group_append_inv:
  assumes "\<forall>(k, es) \<in> set groups. \<forall>e \<in> set es. P e" and "P (snd p)"
  shows "\<forall>(k, es) \<in> set (group_append groups p). \<forall>e \<in> set es. P e"
proof -
  define new where
    "new = (case map_of groups (fst p) of None \<Rightarrow> [] | Some es \<Rightarrow> es) @ [snd p]"
  have "\<forall>e \<in> set es. P e" if "map_of groups (fst p) = Some es" for es
    using map_of_SomeD [OF that] assms(1) by auto
  with assms(2) have new: "\<forall>e \<in> set new. P e"
    unfolding new_def by (cases "map_of groups (fst p)") auto
  have "\<forall>(k, es) \<in> set (AList.update (fst p) new groups). \<forall>e \<in> set es. P e"
    using assms(1) new by (auto dest!: update_set_cases)
  then show ?thesis by (simp add: group_append_def new_def)
qed

lemma group_fold_inv:
  assumes "\<forall>(k, es) \<in> set groups. \<forall>e \<in> set es. P e" and "\<forall>(k, e) \<in> set xs. P e"
  shows "\<forall>(k, es) \<in> set (fold (\<lambda>p groups. group_append groups p) xs groups). \<forall>e \<in> set es. P e"
  using assms
proof (induction xs arbitrary: groups)
  case Nil
  then show ?case by simp
next
  case (Cons p xs)
  from Cons.prems(2) have "P (snd p)" by (cases p) simp
  from group_append_inv [OF Cons.prems(1) this] Cons.prems(2)
  show ?case by (simp add: Cons.IH)
qed

lemma max_loop_mem: "max_loop best es = Inr r \<Longrightarrow> r = best \<or> r \<in> set es"
proof (induction es arbitrary: best)
  case Nil
  then show ?case by simp
next
  case (Cons e es)
  from Cons.prems obtain higher where
    "max_loop (if higher then e else best) es = Inr r" by (auto simp: py_bind_Inr)
  from Cons.IH [OF this] show ?case by (auto split: if_splits)
qed

lemma fold_sources:
  "fold (\<lambda>entity best. best\<lparr>source_databases := source_databases best \<union> source_databases entity\<rparr>)
        es b
   = b\<lparr>source_databases := source_databases b \<union> \<Union> (source_databases ` set es)\<rparr>"
  by (induction es arbitrary: b) (simp_all add: Un_assoc)

lemma select_best_inv:
  assumes "select_best es = Inr b" and "stable P" and "\<forall>e \<in> set es. P e"
  shows "P b"
proof (cases "length es = 1")
  case True
  with assms(1,3) show ?thesis by (cases es) (auto simp: select_best_def)
next
  case False
  with assms(1) obtain m where m: "max_by_score es = Inr m"
    and b: "b = m\<lparr>source_databases := source_databases m \<union> \<Union> (source_databases ` set es)\<rparr>"
    by (auto simp: select_best_def py_bind_Inr fold_sources)
  from m have "m \<in> set es"
    by (cases es) (auto simp: max_by_score_def dest: max_loop_mem)
  with assms(3) have "P m" by blast
  with assms(2) show ?thesis unfolding b by (rule stableD(2))
qed

lemma select_groups_inv:
  assumes "select_groups groups c = Inr c'" and "stable P"
    and "\<forall>(k, e) \<in> set c. P e"
    and "\<forall>(k, es) \<in> set groups. \<forall>e \<in> set es. P e"
  shows "\<forall>(k, e) \<in> set c'. P e"
  using assms(1,3,4)
proof (induction groups arbitrary: c)
  case Nil
  then show ?case by simp
next
  case (Cons g groups)
  obtain k es where g: "g = (k, es)" by (cases g)
  from Cons.prems(1) obtain b where b: "select_best es = Inr b"
    and r: "select_groups groups (AList.update k b c) = Inr c'"
    by (auto simp: g py_bind_Inr)
  from Cons.prems(3) have "\<forall>e \<in> set es. P e" by (simp add: g)
  from select_best_inv [OF b assms(2) this] Cons.prems(2)
  have inv: "\<forall>(k, e) \<in> set (AList.update k b c). P e"
    by (auto dest: update_set_cases)
  from Cons.prems(3) have "\<forall>(k, es) \<in> set groups. \<forall>e \<in> set es. P e" by simp
  from Cons.IH [OF r inv this] show ?case .
qed

lemma type_based_merge_inv:
  assumes "type_based_merge A B = Inr c'"
    and "stable P"
    and "\<And>d e. d \<in> snd ` set A \<Longrightarrow> create_entity_from_normalized d ''PrimeKG'' = Inr e \<Longrightarrow>
           P (e\<lparr>confidence_score := Some (of_int (get_type_priority (types e)))\<rparr>)"
    and "\<And>d e. d \<in> snd ` set B \<Longrightarrow> create_entity_from_normalized d ''SemMed'' = Inr e \<Longrightarrow>
           P (e\<lparr>confidence_score := Some (of_int (get_type_priority (types e)))\<rparr>)"
  shows "\<forall>(k, e) \<in> set c'. P e"
proof -
  from assms(1) obtain xa xb where
    xa: "collect_entities ''PrimeKG'' A = Inr xa" and
    xb: "collect_entities ''SemMed'' B = Inr xb" and
    s: "select_groups (fold (\<lambda>p groups. group_append groups p) (xa @ xb) []) [] = Inr c'"
    by (auto simp: type_based_merge_def py_bind_Inr)
  have "\<forall>(k, e) \<in> set xa. P e" by (rule collect_entities_inv [OF xa]) (rule assms(3))
  moreover have "\<forall>(k, e) \<in> set xb. P e" by (rule collect_entities_inv [OF xb]) (rule assms(4))
  ultimately have "\<forall>(k, e) \<in> set (xa @ xb). P e" by auto
  then have "\<forall>(k, es) \<in> set (fold (\<lambda>p groups. group_append groups p) (xa @ xb) []).
      \<forall>e \<in> set es. P e"
    by (intro group_fold_inv) simp_all
  from select_groups_inv [OF s assms(2) _ this] show ?thesis by simp
qed

subsection \<open>The four strategies on the example databases\<close>

lemma ex_intersection_merge:
  "intersection_merge ex_store ex_primekg ex_semmed = Inr (ex_intersection_out, ex_store_after)"
  by (simp add: intersection_merge_def common_ids_def intersection_entity_def
      ex_store_def ex_primekg_def ex_semmed_def py_bind_def
      get_key_def create_entity_from_normalized_def list_of_set_def
      ex_intersection_out_def ex_store_after_def)

lemma ex_confidence_based_merge:
  "confidence_based_merge ex_store 0.6 ex_primekg ex_semmed
     = Inr (ex_confidence_out, ex_store_after)"
  by (simp add: confidence_based_merge_def confidence_resolve_def calculate_confidence_def
      score_gt_def ex_store_def ex_primekg_def ex_semmed_def py_bind_def
      get_key_def create_entity_from_normalized_def list_of_set_def
      ex_confidence_out_def ex_store_after_def)

lemma ex_type_based_merge:
  "type_based_merge ex_primekg ex_semmed = Inr ex_type_based_out"
  by (auto simp: type_based_merge_def group_append_def select_best_def max_by_score_def
      score_gt_def get_type_priority_def type_hierarchy_def startswith_def
      ex_primekg_def ex_semmed_def py_bind_def
      get_key_def create_entity_from_normalized_def ex_type_based_out_def)

lemma ex_records_self_member:
  "\<forall>d \<in> snd ` set ex_primekg \<union> snd ` set ex_semmed. record_self_member ex_store d"
  by (simp add: ex_primekg_def ex_semmed_def ex_store_def record_self_member_def)

subsection \<open>Confidence scores\<close>

lemma calculate_confidence_le_1: "calculate_confidence h e src w \<le> 1"
  by (simp add: calculate_confidence_def Let_def)

lemma calculate_confidence_ge_0: "0 \<le> w \<Longrightarrow> 0 \<le> calculate_confidence h e src w"
  by (simp add: calculate_confidence_def Let_def)

lemma inner_fold_bounds:
  assumes "\<forall>(n, p) \<in> set hs. 0 \<le> p \<and> p \<le> (10::int)" and "0 \<le> m \<and> m \<le> 10"
  shows "0 \<le> fold (\<lambda>(type_name, priority) max_priority.
                     if startswith t type_name then max max_priority priority
                     else max_priority) hs m \<and>
         fold (\<lambda>(type_name, priority) max_priority.
                     if startswith t type_name then max max_priority priority
                     else max_priority) hs m \<le> 10"
  using assms
proof (induction hs arbitrary: m)
  case Nil
  then show ?case by simp
next
  case (Cons x hs)
  obtain n p where x: "x = (n, p)" by (cases x)
  from Cons.prems have "0 \<le> (if startswith t n then max m p else m) \<and>
      (if startswith t n then max m p else m) \<le> 10" by (auto simp: x max_def)
  with Cons.prems(1) Cons.IH [of "if startswith t n then max m p else m"]
  show ?case by (simp add: x)
qed

lemma type_hierarchy_bounds: "\<forall>(n, p) \<in> set type_hierarchy. 0 \<le> p \<and> p \<le> 10"
  by (simp add: type_hierarchy_def)

lemma get_type_priority_bounds: "0 \<le> get_type_priority tys \<and> get_type_priority tys \<le> 10"
proof -
  have "0 \<le> fold (\<lambda>entity_type max_priority.
             fold (\<lambda>(type_name, priority) max_priority.
                     if startswith entity_type type_name then max max_priority priority
                     else max_priority)
                  type_hierarchy max_priority) tys m \<and>
        fold (\<lambda>entity_type max_priority.
             fold (\<lambda>(type_name, priority) max_priority.
                     if startswith entity_type type_name then max max_priority priority
                     else max_priority)
                  type_hierarchy max_priority) tys m \<le> 10"
    if "0 \<le> m \<and> m \<le> 10" for m
    using that
  proof (induction tys arbitrary: m)
    case Nil
    then show ?case by simp
  next
    case (Cons t tys)
    from inner_fold_bounds [OF type_hierarchy_bounds Cons.prems, of t]
    show ?case by (simp only: fold_simps o_apply Cons.IH)
  qed
  then show ?thesis by (simp add: get_type_priority_def)
qed

lemma stable_score: "stable (\<lambda>e. Q (confidence_score e))"
  by (simp add: stable_def)

subsection \<open>Self-membership\<close>

lemma self_member_score [simp]:
  "self_member h (e\<lparr>confidence_score := s\<rparr>) = self_member h e"
  by (simp add: self_member_def)

lemma self_member_returned:
  assumes "\<forall>d \<in> snd ` set primekg_data \<union> snd ` set semmed_data. record_self_member h d"
  shows "(\<forall>c h'. union_merge h primekg_data semmed_data = Inr (c, h') \<longrightarrow>
            (\<forall>(k, e) \<in> set c. self_member h' e)) \<and>
         (\<forall>c h'. intersection_merge h primekg_data semmed_data = Inr (c, h') \<longrightarrow>
            (\<forall>(k, e) \<in> set c. self_member h' e)) \<and>
         (\<forall>w c h'. confidence_based_merge h w primekg_data semmed_data = Inr (c, h') \<longrightarrow>
            (\<forall>(k, e) \<in> set c. self_member h' e)) \<and>
         (\<forall>c. type_based_merge primekg_data semmed_data = Inr c \<longrightarrow>
            (\<forall>(k, e) \<in> set c. self_member h e))"
proof -
  have a: "self_member h e"
    if "d \<in> snd ` set primekg_data" "create_entity_from_normalized d src = Inr e" for d src e
  proof -
    from that(1) assms have "record_self_member h d" by blast
    with that(2) show ?thesis by (rule create_entity_self_member)
  qed
  have b: "self_member h e"
    if "d \<in> snd ` set semmed_data" "create_entity_from_normalized d src = Inr e" for d src e
  proof -
    from that(1) assms have "record_self_member h d" by blast
    with that(2) show ?thesis by (rule create_entity_self_member)
  qed
  have later: "\<forall>(k, e) \<in> set c. self_member h' e"
    if "(\<forall>(k, e) \<in> set c. self_member h e) \<and> store_le h h'" for c h'
  proof -
    from that have "self_member h' e" if "(k, e) \<in> set c" for k e
      using that self_member_mono [of h h' e] by blast
    then show ?thesis by blast
  qed
  have u: "\<forall>(k, e) \<in> set c. self_member h' e"
    if m: "union_merge h primekg_data semmed_data = Inr (c, h')" for c h'
  proof (rule later, rule union_merge_inv [OF m stable_self_member])
    show "self_member h e"
      if "d \<in> snd ` set primekg_data" "create_entity_from_normalized d ''PrimeKG'' = Inr e"
      for d e using that by (rule a)
    show "self_member h e"
      if "d \<in> snd ` set semmed_data" "create_entity_from_normalized d ''SemMed'' = Inr e"
      for d e using that by (rule b)
  qed
  have i: "\<forall>(k, e) \<in> set c. self_member h' e"
    if m: "intersection_merge h primekg_data semmed_data = Inr (c, h')" for c h'
  proof (rule later, rule intersection_merge_inv [OF m stable_self_member])
    show "self_member h e"
      if "d \<in> snd ` set primekg_data" "create_entity_from_normalized d ''PrimeKG'' = Inr e"
      for d e using that by (rule a)
  qed
  have cf: "\<forall>(k, e) \<in> set c. self_member h' e"
    if m: "confidence_based_merge h w primekg_data semmed_data = Inr (c, h')" for w c h'
  proof (rule later, rule confidence_based_merge_inv [OF m stable_self_member])
    show "self_member h (e\<lparr>confidence_score := Some (calculate_confidence h e ''PrimeKG'' w)\<rparr>)"
      if "d \<in> snd ` set primekg_data" "create_entity_from_normalized d ''PrimeKG'' = Inr e"
      for d e using a [OF that] by simp
    show "self_member h
        (e\<lparr>confidence_score := Some (calculate_confidence h0 e ''SemMed'' (1 - w))\<rparr>)"
      if "d \<in> snd ` set semmed_data" "create_entity_from_normalized d ''SemMed'' = Inr e"
      for d e h0 using b [OF that] by simp
  qed
  have t: "\<forall>(k, e) \<in> set c. self_member h e"
    if m: "type_based_merge primekg_data semmed_data = Inr c" for c
  proof (rule type_based_merge_inv [OF m stable_self_member])
    show "self_member h (e\<lparr>confidence_score := Some (of_int (get_type_priority (types e)))\<rparr>)"
      if "d \<in> snd ` set primekg_data" "create_entity_from_normalized d ''PrimeKG'' = Inr e"
      for d e using a [OF that] by simp
    show "self_member h (e\<lparr>confidence_score := Some (of_int (get_type_priority (types e)))\<rparr>)"
      if "d \<in> snd ` set semmed_data" "create_entity_from_normalized d ''SemMed'' = Inr e"
      for d e using b [OF that] by simp
  qed
  show ?thesis
  proof (intro conjI allI impI)
    show "\<forall>(k, e) \<in> set c. self_member h' e"
      if "union_merge h primekg_data semmed_data = Inr (c, h')" for c h'
      using that by (rule u)
    show "\<forall>(k, e) \<in> set c. self_member h' e"
      if "intersection_merge h primekg_data semmed_data = Inr (c, h')" for c h'
      using that by (rule i)
    show "\<forall>(k, e) \<in> set c. self_member h' e"
      if "confidence_based_merge h w primekg_data semmed_data = Inr (c, h')" for w c h'
      using that by (rule cf)
    show "\<forall>(k, e) \<in> set c. self_member h e"
      if "type_based_merge primekg_data semmed_data = Inr c" for c
      using that by (rule t)
  qed
qed

subsection \<open>Confidence scores of the four strategies\<close>

lemma confidence_score_returned:
  "(\<forall>c h'. union_merge h primekg_data semmed_data = Inr (c, h') \<longrightarrow>
      (\<forall>(k, e) \<in> set c. confidence_score e = None)) \<and>
   (\<forall>c h'. intersection_merge h primekg_data semmed_data = Inr (c, h') \<longrightarrow>
      (\<forall>(k, e) \<in> set c. confidence_score e = None)) \<and>
   (\<forall>w c h'. confidence_based_merge h w primekg_data semmed_data = Inr (c, h') \<longrightarrow>
      (\<forall>(k, e) \<in> set c. \<exists>s. confidence_score e = Some s \<and> s \<le> 1 \<and>
                               (0 \<le> w \<and> w \<le> 1 \<longrightarrow> 0 \<le> s))) \<and>
   (\<forall>c. type_based_merge primekg_data semmed_data = Inr c \<longrightarrow>
      (\<forall>(k, e) \<in> set c. \<exists>p. confidence_score e = Some (of_int p) \<and> 0 \<le> p \<and> p \<le> 10))"
proof (intro conjI allI impI)
  fix c h'
  assume m: "union_merge h primekg_data semmed_data = Inr (c, h')"
  have "(\<forall>(k, e) \<in> set c. confidence_score e = None) \<and> store_le h h'"
    by (rule union_merge_inv [OF m stable_score]) (erule create_entity_score)+
  then show "\<forall>(k, e) \<in> set c. confidence_score e = None" ..
next
  fix c h'
  assume m: "intersection_merge h primekg_data semmed_data = Inr (c, h')"
  have "(\<forall>(k, e) \<in> set c. confidence_score e = None) \<and> store_le h h'"
    by (rule intersection_merge_inv [OF m stable_score]) (erule create_entity_score)
  then show "\<forall>(k, e) \<in> set c. confidence_score e = None" ..
next
  fix w c h'
  assume m: "confidence_based_merge h w primekg_data semmed_data = Inr (c, h')"
  let ?Q = "\<lambda>x. \<exists>s. x = Some s \<and> s \<le> 1 \<and> (0 \<le> w \<and> w \<le> 1 \<longrightarrow> 0 \<le> s)"
  have "(\<forall>(k, e) \<in> set c. ?Q (confidence_score e)) \<and> store_le h h'"
  proof (rule confidence_based_merge_inv [OF m stable_score])
    show "?Q (confidence_score
            (e\<lparr>confidence_score := Some (calculate_confidence h e ''PrimeKG'' w)\<rparr>))" for e
      by (simp add: calculate_confidence_le_1 calculate_confidence_ge_0)
    show "?Q (confidence_score
            (e\<lparr>confidence_score := Some (calculate_confidence h0 e ''SemMed'' (1 - w))\<rparr>))"
      for e h0
      by (simp add: calculate_confidence_le_1 calculate_confidence_ge_0)
  qed
  then show "\<forall>(k, e) \<in> set c. ?Q (confidence_score e)" ..
next
  fix c
  assume m: "type_based_merge primekg_data semmed_data = Inr c"
  let ?Q = "\<lambda>x. \<exists>p::int. x = Some (of_int p) \<and> 0 \<le> p \<and> p \<le> 10"
  show "\<forall>(k, e) \<in> set c. ?Q (confidence_score e)"
  proof (rule type_based_merge_inv [OF m stable_score])
    show "?Q (confidence_score
            (e\<lparr>confidence_score := Some (of_int (get_type_priority (types e)))\<rparr>))" for e
      using get_type_priority_bounds [of "types e"] by auto
    then show "?Q (confidence_score
            (e\<lparr>confidence_score := Some (of_int (get_type_priority (types e)))\<rparr>))" for e .
  qed
qed

lemma ex_confidence_heavy_merge:
  "confidence_based_merge ex_store (3 / 2) ex_primekg ex_semmed
     = Inr (ex_confidence_heavy_out, ex_store_after)"
  by (simp add: confidence_based_merge_def confidence_resolve_def calculate_confidence_def
      score_gt_def ex_store_def ex_primekg_def ex_semmed_def py_bind_def
      get_key_def create_entity_from_normalized_def list_of_set_def
      ex_confidence_heavy_out_def ex_store_after_def)

subsection \<open>The input records and the store\<close>

text \<open>
  C2 (the code departs from it). The PrimeKG record \<open>A:1\<close> of the example points to the
  list at address 0, which holds one equivalent identifier before the union merge and two
  after it: the merge has appended the SemMed entry \<open>B:2\<close> to the list of the input
  record itself, since the merged entity shares that list.
\<close>

theorem union_merge_mutates_input:
  "union_merge ex_store ex_primekg ex_semmed = Inr (ex_union_out, ex_store_after) \<and>
   map_option ed_equivalent_identifiers (map_of ex_primekg ''A:1'') = Some (Some 0) \<and>
   map_option equivalent_identifiers (map_of ex_union_out ''A:1'') = Some 0 \<and>
   ex_store 0 = [\<lparr>eq_identifier = Some ''A:1'', eq_label = Some ''a''\<rparr>] \<and>
   ex_store_after 0 = [\<lparr>eq_identifier = Some ''A:1'', eq_label = Some ''a''\<rparr>,
                       \<lparr>eq_identifier = Some ''B:2'', eq_label = Some ''b''\<rparr>]"
  using ex_union_merge
  by (simp add: ex_primekg_def ex_union_out_def ex_store_def ex_store_after_def)

subsection \<open>Records with a missing field\<close>

lemma create_entity_complete:
  "create_entity_from_normalized d src = Inr e \<Longrightarrow> complete d"
  by (auto simp: create_entity_from_normalized_def py_bind_Inr get_key_def complete_def
      split: option.splits)

lemma add_primekg_complete:
  "add_primekg db c = Inr c' \<Longrightarrow> \<forall>d \<in> snd ` set db. complete d"
proof (induction db arbitrary: c)
  case Nil
  then show ?case by simp
next
  case (Cons p db)
  obtain k d where p: "p = (k, d)" by (cases p)
  from Cons.prems obtain e where e: "create_entity_from_normalized d ''PrimeKG'' = Inr e"
    and r: "add_primekg db (AList.update k e c) = Inr c'"
    by (auto simp: p py_bind_Inr)
  from create_entity_complete [OF e] Cons.IH [OF r] show ?case by (simp add: p)
qed

lemma union_add_semmed_fields:
  "union_add_semmed db c h = Inr r \<Longrightarrow>
     \<forall>d \<in> snd ` set db. ed_type d \<noteq> None \<and> ed_equivalent_identifiers d \<noteq> None"
proof (induction db arbitrary: c h)
  case Nil
  then show ?case by simp
next
  case (Cons p db)
  obtain k d where p: "p = (k, d)" by (cases p)
  from Cons.prems obtain e h1 where
    r: "union_add_semmed db (AList.update k e c) h1 = Inr r"
    and e: "(\<exists>ex. union_merge_existing h ex d = Inr (e, h1)) \<or>
            create_entity_from_normalized d ''SemMed'' = Inr e"
    by (auto simp: p py_bind_Inr split: option.splits)
  from e have "ed_type d \<noteq> None \<and> ed_equivalent_identifiers d \<noteq> None"
    by (auto simp: union_merge_existing_def py_bind_Inr get_key_def complete_def
        dest!: create_entity_complete split: option.splits)
  with Cons.IH [OF r] show ?case by (simp add: p)
qed

text \<open>Every exception of the union merge is a \<open>KeyError\<close>.\<close>

lemma py_bind_Inl:
  "py_bind m f = Inl e \<longleftrightarrow> m = Inl e \<or> (\<exists>x. m = Inr x \<and> f x = Inl e)"
  by (cases m) (simp_all add: py_bind_def)

lemma get_key_Inl: "get_key key v = Inl e \<Longrightarrow> e = KeyError key"
  by (simp add: get_key_def split: option.splits)

lemma create_entity_Inl:
  "create_entity_from_normalized d src = Inl e \<Longrightarrow> \<exists>key. e = KeyError key"
  by (auto simp: create_entity_from_normalized_def py_bind_Inl dest: get_key_Inl)

lemma equiv_ids_Inl: "equiv_ids eqs = Inl e \<Longrightarrow> \<exists>key. e = KeyError key"
  by (induction eqs) (auto simp: py_bind_Inl dest: get_key_Inl)

lemma append_new_equivs_Inl:
  "append_new_equivs h a ex eqs = Inl e \<Longrightarrow> \<exists>key. e = KeyError key"
  by (induction eqs arbitrary: h) (auto simp: py_bind_Inl dest: get_key_Inl)

lemma union_merge_existing_Inl:
  "union_merge_existing h existing d = Inl e \<Longrightarrow> \<exists>key. e = KeyError key"
  by (auto simp: union_merge_existing_def py_bind_Inl
      dest: get_key_Inl equiv_ids_Inl append_new_equivs_Inl)

lemma add_primekg_Inl: "add_primekg db c = Inl e \<Longrightarrow> \<exists>key. e = KeyError key"
proof (induction db arbitrary: c)
  case Nil
  then show ?case by simp
next
  case (Cons p db)
  obtain k d where p: "p = (k, d)" by (cases p)
  from Cons.prems Cons.IH show ?case
    by (auto simp: p py_bind_Inl dest: create_entity_Inl)
qed

lemma union_add_semmed_Inl:
  "union_add_semmed db c h = Inl e \<Longrightarrow> \<exists>key. e = KeyError key"
proof (induction db arbitrary: c h)
  case Nil
  then show ?case by simp
next
  case (Cons p db)
  obtain k d where p: "p = (k, d)" by (cases p)
  from Cons.prems Cons.IH show ?case
    by (auto simp: p py_bind_Inl dest: create_entity_Inl union_merge_existing_Inl
        split: option.splits)
qed

lemma union_merge_Inl: "union_merge h A B = Inl e \<Longrightarrow> \<exists>key. e = KeyError key"
  by (auto simp: union_merge_def py_bind_Inl dest: add_primekg_Inl union_add_semmed_Inl)

text \<open>
  C3 (as the code has it). The union merge validates nothing. When a PrimeKG record
  lacks \<open>id\<close>, \<open>id.identifier\<close>, \<open>id.label\<close>, \<open>equivalent_identifiers\<close> or \<open>type\<close>, or a
  SemMed record lacks \<open>type\<close> or \<open>equivalent_identifiers\<close>, the merge raises \<open>KeyError\<close>:
  it returns no merged map at all, so no entity is left out or reported and no other
  entity is merged.
\<close>

theorem union_merge_missing_field_raises:
  assumes "(\<exists>d \<in> snd ` set primekg_data. \<not> complete d) \<or>
           (\<exists>d \<in> snd ` set semmed_data.
              ed_type d = None \<or> ed_equivalent_identifiers d = None)"
  shows "\<exists>key. union_merge h primekg_data semmed_data = Inl (KeyError key)"
proof (cases "union_merge h primekg_data semmed_data")
  case (Inl e)
  with union_merge_Inl [OF Inl] show ?thesis by blast
next
  case (Inr r)
  then obtain c1 where
    c1: "add_primekg primekg_data [] = Inr c1" and
    c2: "union_add_semmed semmed_data c1 h = Inr r"
    by (auto simp: union_merge_def py_bind_Inr)
  from add_primekg_complete [OF c1] union_add_semmed_fields [OF c2] assms
  show ?thesis by blast
qed

theorem union_merge_missing_field_raises_witness:
  "(\<exists>d \<in> snd ` set ex_primekg_no_type. \<not> complete d) \<and>
   (\<exists>key. union_merge ex_store ex_primekg_no_type ex_semmed = Inl (KeyError key))"
proof -
  have h: "\<exists>d \<in> snd ` set ex_primekg_no_type. \<not> complete d"
    by (simp add: ex_primekg_no_type_def complete_def)
  then have "(\<exists>d \<in> snd ` set ex_primekg_no_type. \<not> complete d) \<or>
      (\<exists>d \<in> snd ` set ex_semmed. ed_type d = None \<or> ed_equivalent_identifiers d = None)" ..
  from union_merge_missing_field_raises [OF this, of ex_store] h show ?thesis by (intro conjI)
qed

text \<open>
  C3 (as stated) fails: the first PrimeKG record has no \<open>type\<close>, and the union merge
  raises \<open>KeyError\<close> instead of leaving that record out and merging the others.
\<close>

theorem union_merge_missing_type_counterexample:
  "union_merge ex_store ex_primekg_no_type ex_semmed = Inl (KeyError ''type'')"
  by (simp add: union_merge_def ex_primekg_no_type_def py_bind_def get_key_def
      create_entity_from_normalized_def)

subsection \<open>Duplicate identifiers\<close>

text \<open>
  C9 (the code departs from it). One entity, \<open>A:1\<close>, lists its own identifier among its
  equivalent identifiers, as every well-formed entity does. No other entity claims the
  identifier, yet the validator reports it, with the same key twice.
\<close>

theorem check_duplicate_reports_self_member:
  "check_duplicate_identifiers ex_combined_json = [(''A:1'', [''A:1'', ''A:1''])] \<and>
   claimed_by ex_combined_json ''A:1'' = [''A:1'']"
  by (simp add: check_duplicate_identifiers_def identifier_to_entities_def claim_main_def
      claim_equivalents_def claim_def claimed_by_def claims_def ex_combined_json_def)

subsection \<open>Statistics of an empty map\<close>

text \<open>
  C10. On an empty merged map \<open>generate_statistics\<close> returns, with no entity counted
  and the mean 0: the division, which would raise on a zero divisor, is not reached.
\<close>

theorem generate_statistics_empty:
  "generate_statistics h [] =
     Inr \<lparr>total_entities = 0, entities_by_source = Map.empty, entities_by_type = Map.empty,
          entities_with_multiple_sources = 0, average_equivalent_identifiers = 0,
          type_distribution = Map.empty\<rparr> \<and>
   truediv 0 0 = Inl ZeroDivisionError"
  by (simp add: generate_statistics_def py_bind_def truediv_def)

subsection \<open>Type-based merge: the priority of an entity\<close>

lemma inner_fold_max:
  "fold (\<lambda>(type_name, priority) max_priority.
           if startswith t type_name then max max_priority priority else max_priority) hs m
   = fold max (map snd (filter (\<lambda>(type_name, priority). startswith t type_name) hs)) (m::int)"
proof (induction hs arbitrary: m)
  case Nil
  then show ?case by simp
next
  case (Cons x hs)
  obtain n p where x: "x = (n, p)" by (cases x)
  show ?case by (simp add: x Cons.IH max.commute)
qed

lemma fold_max_Max: "fold max xs (m::int) = Max (set (m # xs))"
  by (rule Max.set_eq_fold [symmetric])

lemma Max_cons: "xs \<noteq> [] \<Longrightarrow> Max (set (m # xs)) = max (m::int) (Max (set xs))"
  by (simp add: Max_insert)

lemma inner_fold_ranking:
  assumes "0 \<le> m"
  shows "fold (\<lambda>(type_name, priority) max_priority.
           if startswith t type_name then max max_priority priority else max_priority)
           type_hierarchy m
         = max m (ranking t)"
proof -
  define rs where
    "rs = map snd (filter (\<lambda>(type_name, priority). startswith t type_name) type_hierarchy)"
  have "Max (set (m # rs)) = max m (Max (set (0 # rs)))"
  proof (cases "rs = []")
    case True
    with assms show ?thesis by simp
  next
    case False
    have 1: "Max (set (m # rs)) = max m (Max (set rs))" by (rule Max_cons [OF False])
    have 2: "Max (set (0 # rs)) = max 0 (Max (set rs))" by (rule Max_cons [OF False])
    have "max m (Max (set rs)) = max m (max 0 (Max (set rs)))" using assms by linarith
    then show ?thesis by (simp only: 1 2)
  qed
  then show ?thesis by (simp only: inner_fold_max fold_max_Max ranking_def rs_def)
qed

lemma outer_fold_ranking:
  assumes "0 \<le> m"
  shows "fold (\<lambda>entity_type max_priority.
             fold (\<lambda>(type_name, priority) max_priority.
                     if startswith entity_type type_name then max max_priority priority
                     else max_priority)
                  type_hierarchy max_priority) tys m
         = Max (set (m # map ranking tys))"
  using assms
proof (induction tys arbitrary: m)
  case Nil
  then show ?case by simp
next
  case (Cons t tys)
  have "0 \<le> max m (ranking t)" using Cons.prems by simp
  from Cons.IH [OF this]
  have "fold (\<lambda>entity_type max_priority.
             fold (\<lambda>(type_name, priority) max_priority.
                     if startswith entity_type type_name then max max_priority priority
                     else max_priority)
                  type_hierarchy max_priority) (t # tys) m
        = Max (set (max m (ranking t) # map ranking tys))"
    by (simp add: inner_fold_ranking [OF Cons.prems])
  also have "\<dots> = Max (set (m # map ranking (t # tys)))"
  proof (cases "map ranking tys = []")
    case True
    then show ?thesis by simp
  next
    case False
    have c: "ranking t # map ranking tys \<noteq> []" by simp
    have 1: "Max (set (max m (ranking t) # map ranking tys))
        = max (max m (ranking t)) (Max (set (map ranking tys)))"
      by (rule Max_cons [OF False])
    have 2: "Max (set (ranking t # map ranking tys))
        = max (ranking t) (Max (set (map ranking tys)))"
      by (rule Max_cons [OF False])
    have 3: "Max (set (m # ranking t # map ranking tys))
        = max m (Max (set (ranking t # map ranking tys)))"
      by (rule Max_cons [OF c])
    show ?thesis by (simp only: list.map 1 2 3 max.assoc)
  qed
  finally show ?case .
qed

lemma get_type_priority_ranking:
  "get_type_priority tys = Max (set (0 # map ranking tys))"
  unfolding get_type_priority_def by (rule outer_fold_ranking) simp

subsection \<open>Type-based merge: the representative of a key\<close>

lemma create_entity_sources:
  "create_entity_from_normalized d src = Inr e \<Longrightarrow> source_databases e = {src}"
  by (auto simp: create_entity_from_normalized_def py_bind_Inr get_key_def split: option.splits)

lemma collect_entities_map_of:
  assumes "collect_entities src db = Inr xs"
  shows "map fst xs = map fst db"
    and "map_of db k = Some d \<Longrightarrow>
           \<exists>e. create_entity_from_normalized d src = Inr e \<and> map_of xs k = Some (with_priority e)"
    and "map_of db k = None \<Longrightarrow> map_of xs k = None"
  using assms
proof (induction db arbitrary: xs)
  case Nil
  { case 1 then show ?case by simp }
  { case 2 then show ?case by simp }
  { case 3 then show ?case by simp }
next
  case (Cons p db)
  obtain k0 d0 where p: "p = (k0, d0)" by (cases p)
  { case 1
    then obtain e more where e: "create_entity_from_normalized d0 src = Inr e"
      and m: "collect_entities src db = Inr more"
      and xs: "xs = (k0, with_priority e) # more"
      by (auto simp: p py_bind_Inr with_priority_def)
    from Cons.IH(1) [OF m] show ?case by (simp add: xs p) }
  { case 2
    from 2(2) obtain e more where e: "create_entity_from_normalized d0 src = Inr e"
      and m: "collect_entities src db = Inr more"
      and xs: "xs = (k0, with_priority e) # more"
      by (auto simp: p py_bind_Inr with_priority_def)
    show ?case
    proof (cases "k = k0")
      case True
      with 2(1) e show ?thesis by (simp add: xs p)
    next
      case False
      with 2(1) Cons.IH(2) [OF _ m] show ?thesis by (simp add: xs p)
    qed }
  { case 3
    from 3(2) obtain e more where e: "create_entity_from_normalized d0 src = Inr e"
      and m: "collect_entities src db = Inr more"
      and xs: "xs = (k0, with_priority e) # more"
      by (auto simp: p py_bind_Inr with_priority_def)
    from 3(1) Cons.IH(3) [OF _ m] show ?case by (simp add: xs p split: if_splits) }
qed

text \<open>The entities filed under the key \<open>k\<close>, in their order.\<close>

lemma group_append_map_of:
  "map_of (group_append groups p) k =
     (if k = fst p
      then Some ((case map_of groups k of None \<Rightarrow> [] | Some es \<Rightarrow> es) @ [snd p])
      else map_of groups k)"
  by (simp add: group_append_def AList.update_conv')

lemma group_fold_map_of:
  "map_of (fold (\<lambda>p groups. group_append groups p) xs groups) k =
     (if map_of groups k = None \<and> filter (\<lambda>p. fst p = k) xs = [] then None
      else Some ((case map_of groups k of None \<Rightarrow> [] | Some es \<Rightarrow> es)
                 @ map snd (filter (\<lambda>p. fst p = k) xs)))"
proof (induction xs arbitrary: groups)
  case Nil
  then show ?case by (cases "map_of groups k") simp_all
next
  case (Cons p xs)
  show ?case
    by (auto simp: Cons.IH group_append_map_of split: option.splits)
qed

lemma group_fold_distinct:
  "distinct (map fst groups) \<Longrightarrow>
   distinct (map fst (fold (\<lambda>p groups. group_append groups p) xs groups))"
  by (induction xs arbitrary: groups) (simp_all add: group_append_def AList.distinct_update)

lemma filter_key_distinct:
  "distinct (map fst xs) \<Longrightarrow>
   map snd (filter (\<lambda>p. fst p = k) xs) = (case map_of xs k of None \<Rightarrow> [] | Some e \<Rightarrow> [e])"
proof (induction xs)
  case Nil
  then show ?case by simp
next
  case (Cons p xs)
  obtain k0 e0 where p: "p = (k0, e0)" by (cases p)
  show ?case
  proof (cases "k = k0")
    case True
    with Cons.prems have "k \<notin> fst ` set xs" by (simp add: p)
    then have "filter (\<lambda>p. fst p = k) xs = []" by (auto simp: filter_empty_conv)
    with True show ?thesis by (simp add: p)
  next
    case False
    with Cons show ?thesis by (simp add: p)
  qed
qed

lemma select_groups_map_of:
  assumes "select_groups groups c = Inr c'" and "distinct (map fst groups)"
  shows "map_of c' k =
     (case map_of groups k of
        None \<Rightarrow> map_of c k
      | Some es \<Rightarrow> (case select_best es of Inl e \<Rightarrow> None | Inr b \<Rightarrow> Some b))"
  using assms
proof (induction groups arbitrary: c)
  case Nil
  then show ?case by simp
next
  case (Cons g groups)
  obtain k0 es0 where g: "g = (k0, es0)" by (cases g)
  from Cons.prems(1) obtain b0 where b0: "select_best es0 = Inr b0"
    and r: "select_groups groups (AList.update k0 b0 c) = Inr c'"
    by (auto simp: g py_bind_Inr)
  from Cons.prems(2) have d: "distinct (map fst groups)" and n: "k0 \<notin> fst ` set groups"
    by (simp_all add: g)
  note ih = Cons.IH [OF r d]
  show ?case
  proof (cases "k = k0")
    case True
    from n have "map_of groups k0 = None" by (simp add: map_of_eq_None_iff)
    with ih True b0 show ?thesis by (simp add: g AList.update_conv')
  next
    case False
    with ih show ?thesis by (simp add: g AList.update_conv' split: option.splits)
  qed
qed

lemma select_best_one: "select_best [e] = Inr e"
  by (simp add: select_best_def)

lemma select_best_two:
  assumes "confidence_score ea = Some sa" and "confidence_score eb = Some sb"
  shows "select_best [ea, eb] =
     Inr ((if sb > sa then eb else ea)
            \<lparr>source_databases := source_databases ea \<union> source_databases eb\<rparr>)"
proof -
  let ?b = "if sb > sa then eb else ea"
  have m: "max_by_score [ea, eb] = Inr ?b"
    using assms by (simp add: max_by_score_def py_bind_def score_gt_def)
  have s: "source_databases ?b \<union> \<Union> (source_databases ` set [ea, eb])
      = source_databases ea \<union> source_databases eb" by auto
  have "select_best [ea, eb] =
      Inr (?b\<lparr>source_databases :=
                source_databases ?b \<union> \<Union> (source_databases ` set [ea, eb])\<rparr>)"
    unfolding select_best_def fold_sources by (simp add: m py_bind_def)
  then show ?thesis by (simp only: s)
qed

lemma with_priority_fields:
  "confidence_score (with_priority e) = Some (of_int (get_type_priority (types e)))"
  "source_databases (with_priority e) = source_databases e"
  by (simp_all add: with_priority_def)

lemma type_based_merge_lookup:
  assumes m: "type_based_merge A B = Inr combined"
    and dA: "distinct (map fst A)" and dB: "distinct (map fst B)"
  shows "\<exists>xa xb.
     collect_entities ''PrimeKG'' A = Inr xa \<and> collect_entities ''SemMed'' B = Inr xb \<and>
     map_of combined k =
       (case (case map_of xa k of None \<Rightarrow> [] | Some e \<Rightarrow> [e]) @
             (case map_of xb k of None \<Rightarrow> [] | Some e \<Rightarrow> [e]) of
          [] \<Rightarrow> None
        | e # es \<Rightarrow> (case select_best (e # es) of Inl err \<Rightarrow> None | Inr b \<Rightarrow> Some b))"
proof -
  from m obtain xa xb where
    xa: "collect_entities ''PrimeKG'' A = Inr xa" and
    xb: "collect_entities ''SemMed'' B = Inr xb" and
    s: "select_groups (fold (\<lambda>p groups. group_append groups p) (xa @ xb) []) [] = Inr combined"
    by (auto simp: type_based_merge_def py_bind_Inr)
  define G where "G = fold (\<lambda>p groups. group_append groups p) (xa @ xb) []"
  define L where "L = (case map_of xa k of None \<Rightarrow> [] | Some e \<Rightarrow> [e]) @
             (case map_of xb k of None \<Rightarrow> [] | Some e \<Rightarrow> [e])"
  from collect_entities_map_of(1) [OF xa] dA have da: "distinct (map fst xa)" by simp
  from collect_entities_map_of(1) [OF xb] dB have db: "distinct (map fst xb)" by simp
  have occ: "map snd (filter (\<lambda>p. fst p = k) (xa @ xb)) = L"
    by (simp add: L_def filter_key_distinct [OF da] filter_key_distinct [OF db])
  then have e: "filter (\<lambda>p. fst p = k) (xa @ xb) = [] \<longleftrightarrow> L = []"
    by (metis map_is_Nil_conv)
  have g: "map_of G k = (if L = [] then None else Some L)"
    unfolding G_def group_fold_map_of occ e by simp
  have dG: "distinct (map fst G)"
    unfolding G_def by (rule group_fold_distinct) simp
  from select_groups_map_of [OF s [folded G_def] dG, of k] g
  have "map_of combined k =
      (case L of [] \<Rightarrow> None
       | e # es \<Rightarrow> (case select_best (e # es) of Inl err \<Rightarrow> None | Inr b \<Rightarrow> Some b))"
    by (cases L) simp_all
  with xa xb show ?thesis unfolding L_def by blast
qed

lemma type_based_merge_returned:
  assumes "type_based_merge primekg_data semmed_data = Inr combined"
    and "distinct (map fst primekg_data)" and "distinct (map fst semmed_data)"
  shows "(\<forall>tys. get_type_priority tys = Max (set (0 # map ranking tys))) \<and>
    (\<forall>k. case (map_of primekg_data k, map_of semmed_data k) of
       (None, None) \<Rightarrow> map_of combined k = None
     | (Some dp, None) \<Rightarrow>
         (\<exists>ep. create_entity_from_normalized dp ''PrimeKG'' = Inr ep \<and>
               map_of combined k = Some (with_priority ep))
     | (None, Some ds) \<Rightarrow>
         (\<exists>es. create_entity_from_normalized ds ''SemMed'' = Inr es \<and>
               map_of combined k = Some (with_priority es))
     | (Some dp, Some ds) \<Rightarrow>
         (\<exists>ep es. create_entity_from_normalized dp ''PrimeKG'' = Inr ep \<and>
                  create_entity_from_normalized ds ''SemMed'' = Inr es \<and>
                  map_of combined k =
                    Some ((if get_type_priority (types es) > get_type_priority (types ep)
                           then with_priority es else with_priority ep)
                          \<lparr>source_databases := {''PrimeKG'', ''SemMed''}\<rparr>)))"
proof (intro conjI allI)
  show "get_type_priority tys = Max (set (0 # map ranking tys))" for tys
    by (rule get_type_priority_ranking)
next
  fix k
  from type_based_merge_lookup [OF assms, of k] obtain xa xb where
    xa: "collect_entities ''PrimeKG'' primekg_data = Inr xa" and
    xb: "collect_entities ''SemMed'' semmed_data = Inr xb" and
    c: "map_of combined k =
       (case (case map_of xa k of None \<Rightarrow> [] | Some e \<Rightarrow> [e]) @
             (case map_of xb k of None \<Rightarrow> [] | Some e \<Rightarrow> [e]) of
          [] \<Rightarrow> None
        | e # es \<Rightarrow> (case select_best (e # es) of Inl err \<Rightarrow> None | Inr b \<Rightarrow> Some b))"
    by blast
  show "case (map_of primekg_data k, map_of semmed_data k) of
       (None, None) \<Rightarrow> map_of combined k = None
     | (Some dp, None) \<Rightarrow>
         (\<exists>ep. create_entity_from_normalized dp ''PrimeKG'' = Inr ep \<and>
               map_of combined k = Some (with_priority ep))
     | (None, Some ds) \<Rightarrow>
         (\<exists>es. create_entity_from_normalized ds ''SemMed'' = Inr es \<and>
               map_of combined k = Some (with_priority es))
     | (Some dp, Some ds) \<Rightarrow>
         (\<exists>ep es. create_entity_from_normalized dp ''PrimeKG'' = Inr ep \<and>
                  create_entity_from_normalized ds ''SemMed'' = Inr es \<and>
                  map_of combined k =
                    Some ((if get_type_priority (types es) > get_type_priority (types ep)
                           then with_priority es else with_priority ep)
                          \<lparr>source_databases := {''PrimeKG'', ''SemMed''}\<rparr>))"
  proof (cases "map_of primekg_data k")
    case None
    note pa = collect_entities_map_of(3) [OF xa None]
    show ?thesis
    proof (cases "map_of semmed_data k")
      case None
      with collect_entities_map_of(3) [OF xb None] pa c \<open>map_of primekg_data k = None\<close>
      show ?thesis by simp
    next
      case (Some ds)
      from collect_entities_map_of(2) [OF xb Some] obtain es where
        es: "create_entity_from_normalized ds ''SemMed'' = Inr es"
        "map_of xb k = Some (with_priority es)" by blast
      with pa c have "map_of combined k = Some (with_priority es)"
        by (simp add: select_best_one)
      with es(1) Some \<open>map_of primekg_data k = None\<close> show ?thesis by simp
    qed
  next
    case (Some dp)
    from collect_entities_map_of(2) [OF xa Some] obtain ep where
      ep: "create_entity_from_normalized dp ''PrimeKG'' = Inr ep"
      "map_of xa k = Some (with_priority ep)" by blast
    show ?thesis
    proof (cases "map_of semmed_data k")
      case None
      with collect_entities_map_of(3) [OF xb None] ep c
      have "map_of combined k = Some (with_priority ep)"
        by (simp add: select_best_one)
      with ep(1) None Some show ?thesis by simp
    next
      case (Some ds)
      from collect_entities_map_of(2) [OF xb Some] obtain es where
        es: "create_entity_from_normalized ds ''SemMed'' = Inr es"
        "map_of xb k = Some (with_priority es)" by blast
      have sd: "source_databases (with_priority ep) \<union> source_databases (with_priority es)
          = {''PrimeKG'', ''SemMed''}"
        using create_entity_sources [OF ep(1)] create_entity_sources [OF es(1)]
        by (simp add: with_priority_fields(2) insert_commute)
      have "select_best [with_priority ep, with_priority es] =
          Inr ((if get_type_priority (types es) > get_type_priority (types ep)
                then with_priority es else with_priority ep)
               \<lparr>source_databases := {''PrimeKG'', ''SemMed''}\<rparr>)"
        using select_best_two [OF with_priority_fields(1) with_priority_fields(1), of ep es]
        unfolding sd by simp
      with ep(2) es(2) c have "map_of combined k =
          Some ((if get_type_priority (types es) > get_type_priority (types ep)
                 then with_priority es else with_priority ep)
                \<lparr>source_databases := {''PrimeKG'', ''SemMed''}\<rparr>)"
        by simp
      with ep(1) es(1) Some \<open>map_of primekg_data k = Some dp\<close> show ?thesis by simp
    qed
  qed
qed

subsection \<open>Well-formed databases: the merges return\<close>

lemma well_formedD:
  assumes "well_formed h db" and "d \<in> snd ` set db"
  shows "complete d"
    and "\<exists>a. ed_equivalent_identifiers d = Some a \<and> a \<in> addresses db \<and>
             (\<forall>eq \<in> set (h a). eq_identifier eq \<noteq> None)"
proof -
  from assms(2) obtain k where kd: "(k, d) \<in> set db" by auto
  with assms(1) have c: "complete d \<and>
      (case ed_equivalent_identifiers d of None \<Rightarrow> False
       | Some a \<Rightarrow> list_all (\<lambda>eq. eq_identifier eq \<noteq> None) (h a))"
    unfolding well_formed_def list_all_iff by blast
  then show "complete d" ..
  from c obtain a where a: "ed_equivalent_identifiers d = Some a"
    and l: "list_all (\<lambda>eq. eq_identifier eq \<noteq> None) (h a)"
    by (cases "ed_equivalent_identifiers d") auto
  from kd a have "a \<in> addresses db" unfolding addresses_def by force
  with a l show "\<exists>a. ed_equivalent_identifiers d = Some a \<and> a \<in> addresses db \<and>
             (\<forall>eq \<in> set (h a). eq_identifier eq \<noteq> None)"
    by (auto simp: list_all_iff)
qed

lemma well_formed_ids_on:
  assumes "well_formed h A" and "well_formed h B"
  shows "ids_on (addresses A \<union> addresses B) h"
  unfolding ids_on_def
proof (intro ballI)
  fix a eq
  assume a: "a \<in> addresses A \<union> addresses B" and eq: "eq \<in> set (h a)"
  have *: "eq_identifier eq \<noteq> None" if "well_formed h db" "a \<in> addresses db" for db
  proof -
    from that(2) obtain k d where kd: "(k, d) \<in> set db" "ed_equivalent_identifiers d = Some a"
      unfolding addresses_def by auto
    from kd(1) have "d \<in> snd ` set db" by force
    from well_formedD(2) [OF that(1) this] kd(2) eq show ?thesis by auto
  qed
  from a have "a \<in> addresses A \<or> a \<in> addresses B" by simp
  then show "eq_identifier eq \<noteq> None"
  proof
    assume "a \<in> addresses A"
    with assms(1) show ?thesis by (rule *)
  next
    assume "a \<in> addresses B"
    with assms(2) show ?thesis by (rule *)
  qed
qed

lemma create_entity_total:
  assumes "complete d"
  shows "\<exists>e. create_entity_from_normalized d src = Inr e \<and>
             ed_equivalent_identifiers d = Some (equivalent_identifiers e)"
  using assms
  by (auto simp: complete_def create_entity_from_normalized_def py_bind_def get_key_def
      split: option.splits)

lemma create_entity_address:
  "create_entity_from_normalized d src = Inr e \<Longrightarrow>
     ed_equivalent_identifiers d = Some (equivalent_identifiers e)"
  by (auto simp: create_entity_from_normalized_def py_bind_Inr get_key_def split: option.splits)

lemma equiv_ids_total:
  "\<forall>eq \<in> set xs. eq_identifier eq \<noteq> None \<Longrightarrow> \<exists>s. equiv_ids xs = Inr s"
  by (induction xs) (auto simp: py_bind_def get_key_def)

lemma append_new_equivs_total:
  "\<forall>eq \<in> set eqs. eq_identifier eq \<noteq> None \<Longrightarrow> \<exists>h'. append_new_equivs h a ex eqs = Inr h'"
  by (induction eqs arbitrary: h) (auto simp: py_bind_def get_key_def)

lemma append_new_equivs_ids_on:
  assumes "append_new_equivs h a ex eqs = Inr h'" and "ids_on S h"
    and "\<forall>eq \<in> set eqs. eq_identifier eq \<noteq> None"
  shows "ids_on S h'"
  using assms(2,3) unfolding append_new_equivs_store [OF assms(1)] ids_on_def by auto

lemma union_merge_existing_total:
  assumes "ids_on S h" and "equivalent_identifiers existing \<in> S"
    and "ed_type d \<noteq> None" and "ed_equivalent_identifiers d = Some a" and "a \<in> S"
  shows "\<exists>e' h'. union_merge_existing h existing d = Inr (e', h') \<and> ids_on S h' \<and>
                 equivalent_identifiers e' = equivalent_identifiers existing"
proof -
  from assms(3) obtain tys where tys: "ed_type d = Some tys" by auto
  from assms(1,2) have "\<forall>eq \<in> set (h (equivalent_identifiers existing)). eq_identifier eq \<noteq> None"
    by (simp add: ids_on_def)
  from equiv_ids_total [OF this] obtain s where
    s: "equiv_ids (h (equivalent_identifiers existing)) = Inr s" ..
  from assms(1,5) have ids: "\<forall>eq \<in> set (h a). eq_identifier eq \<noteq> None"
    by (simp add: ids_on_def)
  from append_new_equivs_total [OF this] obtain h' where
    h': "append_new_equivs h (equivalent_identifiers existing) s (h a) = Inr h'" ..
  from append_new_equivs_ids_on [OF h' assms(1) ids] have "ids_on S h'" .
  with tys s h' assms(4) show ?thesis
    by (simp add: union_merge_existing_def py_bind_def get_key_def)
qed

lemma add_primekg_total:
  "\<forall>d \<in> snd ` set db. complete d \<Longrightarrow> \<exists>c'. add_primekg db c = Inr c'"
proof (induction db arbitrary: c)
  case Nil
  then show ?case by simp
next
  case (Cons p db)
  obtain k d where p: "p = (k, d)" by (cases p)
  from Cons.prems have "complete d" by (simp add: p)
  from create_entity_total [OF this] obtain e where
    "create_entity_from_normalized d ''PrimeKG'' = Inr e" by blast
  with Cons.IH [of "AList.update k e c"] Cons.prems show ?case
    by (simp add: p py_bind_def)
qed

lemma union_add_semmed_total:
  assumes "\<forall>d \<in> snd ` set db. complete d \<and>
             (\<exists>a. ed_equivalent_identifiers d = Some a \<and> a \<in> S)"
    and "\<forall>(k, e) \<in> set c. equivalent_identifiers e \<in> S"
    and "ids_on S h"
  shows "\<exists>c' h'. union_add_semmed db c h = Inr (c', h')"
  using assms
proof (induction db arbitrary: c h)
  case Nil
  then show ?case by simp
next
  case (Cons p db)
  obtain k d where p: "p = (k, d)" by (cases p)
  from Cons.prems(1) obtain a where d: "complete d" "ed_equivalent_identifiers d = Some a" "a \<in> S"
    by (auto simp: p)
  from Cons.prems(1) have rest: "\<forall>d \<in> snd ` set db. complete d \<and>
             (\<exists>a. ed_equivalent_identifiers d = Some a \<and> a \<in> S)" by simp
  show ?case
  proof (cases "map_of c k")
    case None
    from create_entity_total [OF d(1)] obtain e where
      e: "create_entity_from_normalized d ''SemMed'' = Inr e"
      "ed_equivalent_identifiers d = Some (equivalent_identifiers e)" by blast
    with d have "equivalent_identifiers e \<in> S" by simp
    with Cons.prems(2) have "\<forall>(k, e) \<in> set (AList.update k e c). equivalent_identifiers e \<in> S"
      by (auto dest: update_set_cases)
    from Cons.IH [OF rest this Cons.prems(3)] None e(1) show ?thesis
      by (simp add: p py_bind_def)
  next
    case (Some existing)
    then have "(k, existing) \<in> set c" by (rule map_of_SomeD)
    with Cons.prems(2) have ex: "equivalent_identifiers existing \<in> S" by auto
    from d(1) have ty: "ed_type d \<noteq> None" by (simp add: complete_def)
    from union_merge_existing_total [OF Cons.prems(3) ex ty d(2,3)] obtain e' h' where
      e': "union_merge_existing h existing d = Inr (e', h')" "ids_on S h'"
      "equivalent_identifiers e' = equivalent_identifiers existing" by blast
    with ex Cons.prems(2)
    have "\<forall>(k, e) \<in> set (AList.update k e' c). equivalent_identifiers e \<in> S"
      by (auto dest: update_set_cases)
    from Cons.IH [OF rest this e'(2)] Some e'(1) show ?thesis
      by (simp add: p py_bind_def)
  qed
qed

lemma well_formed_records:
  assumes "well_formed h A" and "well_formed h B"
  shows "\<forall>d \<in> snd ` set A. complete d \<and>
           (\<exists>a. ed_equivalent_identifiers d = Some a \<and> a \<in> addresses A \<union> addresses B)"
    and "\<forall>d \<in> snd ` set B. complete d \<and>
           (\<exists>a. ed_equivalent_identifiers d = Some a \<and> a \<in> addresses A \<union> addresses B)"
proof -
  have *: "complete d \<and>
      (\<exists>a. ed_equivalent_identifiers d = Some a \<and> a \<in> addresses A \<union> addresses B)"
    if "well_formed h db" "d \<in> snd ` set db" "addresses db \<subseteq> addresses A \<union> addresses B"
    for db d
  proof -
    from well_formedD(2) [OF that(1,2)] obtain a where
      "ed_equivalent_identifiers d = Some a" "a \<in> addresses db" by blast
    with that(3) well_formedD(1) [OF that(1,2)] show ?thesis by blast
  qed
  show "\<forall>d \<in> snd ` set A. complete d \<and>
           (\<exists>a. ed_equivalent_identifiers d = Some a \<and> a \<in> addresses A \<union> addresses B)"
    using * [OF assms(1)] by blast
  show "\<forall>d \<in> snd ` set B. complete d \<and>
           (\<exists>a. ed_equivalent_identifiers d = Some a \<and> a \<in> addresses A \<union> addresses B)"
    using * [OF assms(2)] by blast
qed

lemma union_merge_total:
  assumes "well_formed h A" and "well_formed h B"
  shows "\<exists>c h'. union_merge h A B = Inr (c, h')"
proof -
  let ?S = "addresses A \<union> addresses B"
  note r = well_formed_records [OF assms]
  from r(1) have "\<forall>d \<in> snd ` set A. complete d" by blast
  from add_primekg_total [OF this] obtain c1 where c1: "add_primekg A [] = Inr c1" ..
  have "\<forall>(k, e) \<in> set c1. equivalent_identifiers e \<in> ?S"
  proof (rule add_primekg_inv [OF c1])
    show "\<forall>(k, e) \<in> set []. equivalent_identifiers e \<in> ?S" by simp
    show "equivalent_identifiers e \<in> ?S"
      if "d \<in> snd ` set A" "create_entity_from_normalized d ''PrimeKG'' = Inr e" for d e
      using r(1) that(1) create_entity_address [OF that(2)] by auto
  qed
  from union_add_semmed_total [OF r(2) this well_formed_ids_on [OF assms]] c1
  show ?thesis by (simp add: union_merge_def py_bind_def)
qed

lemma intersection_entity_total:
  assumes "ids_on S h" and "complete da"
    and "ed_equivalent_identifiers da = Some aa" and "aa \<in> S"
    and "ed_type db \<noteq> None" and "ed_equivalent_identifiers db = Some ab" and "ab \<in> S"
  shows "\<exists>e h'. intersection_entity h da db = Inr (e, h') \<and> ids_on S h'"
proof -
  from create_entity_total [OF assms(2)] obtain e where
    e: "create_entity_from_normalized da ''PrimeKG'' = Inr e"
    "ed_equivalent_identifiers da = Some (equivalent_identifiers e)" by blast
  with assms(3) have ea: "equivalent_identifiers e = aa" by simp
  from assms(5) obtain tys where tys: "ed_type db = Some tys" by auto
  from assms(1,4) have "\<forall>eq \<in> set (h aa). eq_identifier eq \<noteq> None" by (simp add: ids_on_def)
  from equiv_ids_total [OF this] obtain s where s: "equiv_ids (h aa) = Inr s" ..
  from assms(1,7) have ids: "\<forall>eq \<in> set (h ab). eq_identifier eq \<noteq> None"
    by (simp add: ids_on_def)
  from append_new_equivs_total [OF this] obtain h' where
    h': "append_new_equivs h aa s (h ab) = Inr h'" ..
  from append_new_equivs_ids_on [OF h' assms(1) ids] have "ids_on S h'" .
  with e(1) ea tys s h' assms(6) show ?thesis
    by (simp add: intersection_entity_def py_bind_def get_key_def)
qed

lemma map_of_key_Some:
  "k \<in> fst ` set al \<Longrightarrow> \<exists>v. map_of al k = Some v \<and> v \<in> snd ` set al"
proof -
  assume "k \<in> fst ` set al"
  then obtain v where v: "map_of al k = Some v"
    by (cases "map_of al k") (simp_all add: map_of_eq_None_iff)
  from map_of_SomeD [OF this] have "v \<in> snd ` set al" by force
  with v show ?thesis by blast
qed

lemma intersection_loop_total:
  assumes "set ks \<subseteq> fst ` set A \<inter> fst ` set B"
    and "\<forall>d \<in> snd ` set A \<union> snd ` set B. complete d \<and>
             (\<exists>a. ed_equivalent_identifiers d = Some a \<and> a \<in> S)"
    and "ids_on S h"
  shows "\<exists>c' h'. intersection_loop A B ks c h = Inr (c', h')"
  using assms(1,3)
proof (induction ks arbitrary: c h)
  case Nil
  then show ?case by simp
next
  case (Cons k ks)
  from Cons.prems(1) have kA: "k \<in> fst ` set A" and kB: "k \<in> fst ` set B"
    and rest: "set ks \<subseteq> fst ` set A \<inter> fst ` set B" by simp_all
  from map_of_key_Some [OF kA] obtain da where da: "map_of A k = Some da" "da \<in> snd ` set A"
    by blast
  from map_of_key_Some [OF kB] obtain db where db: "map_of B k = Some db" "db \<in> snd ` set B"
    by blast
  from assms(2) da(2) obtain aa where a: "complete da"
    "ed_equivalent_identifiers da = Some aa" "aa \<in> S" by blast
  from assms(2) db(2) obtain ab where b: "complete db"
    "ed_equivalent_identifiers db = Some ab" "ab \<in> S" by blast
  from b(1) have ty: "ed_type db \<noteq> None" by (simp add: complete_def)
  from intersection_entity_total [OF Cons.prems(2) a ty b(2,3)] obtain e h1 where
    e: "intersection_entity h da db = Inr (e, h1)" "ids_on S h1" by blast
  from Cons.IH [OF rest e(2), of "AList.update k e c"] da(1) db(1) e(1)
  show ?case by (simp add: py_bind_def get_key_def)
qed

lemma intersection_merge_total:
  assumes "well_formed h A" and "well_formed h B"
  shows "\<exists>c h'. intersection_merge h A B = Inr (c, h')"
  unfolding intersection_merge_def
proof (rule intersection_loop_total)
  show "set (common_ids A B) \<subseteq> fst ` set A \<inter> fst ` set B"
    by (auto simp: common_ids_def)
  show "\<forall>d \<in> snd ` set A \<union> snd ` set B. complete d \<and>
      (\<exists>a. ed_equivalent_identifiers d = Some a \<and> a \<in> addresses A \<union> addresses B)"
    using well_formed_records [OF assms] by blast
  show "ids_on (addresses A \<union> addresses B) h" by (rule well_formed_ids_on [OF assms])
qed

subsection \<open>Well-formed databases: the confidence-based merge returns\<close>

lemma confidence_add_primekg_total:
  "\<forall>d \<in> snd ` set db. complete d \<Longrightarrow> \<exists>c'. confidence_add_primekg h w db c = Inr c'"
proof (induction db arbitrary: c)
  case Nil
  then show ?case by simp
next
  case (Cons p db)
  obtain k d where p: "p = (k, d)" by (cases p)
  from Cons.prems have "complete d" by (simp add: p)
  from create_entity_total [OF this] obtain e where
    "create_entity_from_normalized d ''PrimeKG'' = Inr e" by blast
  with Cons.IH Cons.prems show ?case
    by (simp add: p py_bind_def)
qed

lemma confidence_resolve_total:
  assumes "ids_on S h" and "equivalent_identifiers existing \<in> S"
    and "confidence_score existing \<noteq> None"
    and "complete d" and "ed_equivalent_identifiers d = Some a" and "a \<in> S"
  shows "\<exists>e' h'. confidence_resolve h w existing d = Inr (e', h') \<and> ids_on S h' \<and>
                 equivalent_identifiers e' \<in> S \<and> confidence_score e' \<noteq> None"
proof -
  from create_entity_total [OF assms(4)] obtain cr where
    cr: "create_entity_from_normalized d ''SemMed'' = Inr cr"
    "ed_equivalent_identifiers d = Some (equivalent_identifiers cr)" by blast
  with assms(5) have ca: "equivalent_identifiers cr = a" by simp
  from assms(3) obtain sx where sx: "confidence_score existing = Some sx" by auto
  show ?thesis
  proof (cases "calculate_confidence h cr ''SemMed'' (1 - w) > sx")
    case True
    with cr(1) ca sx assms(1,6) show ?thesis
      by (simp add: confidence_resolve_def py_bind_def score_gt_def Let_def)
  next
    case False
    from assms(1,2)
    have "\<forall>eq \<in> set (h (equivalent_identifiers existing)). eq_identifier eq \<noteq> None"
      by (simp add: ids_on_def)
    from equiv_ids_total [OF this] obtain s where
      s: "equiv_ids (h (equivalent_identifiers existing)) = Inr s" ..
    from assms(1,6) have ids: "\<forall>eq \<in> set (h a). eq_identifier eq \<noteq> None"
      by (simp add: ids_on_def)
    from append_new_equivs_total [OF this] obtain h' where
      h': "append_new_equivs h (equivalent_identifiers existing) s (h a) = Inr h'" ..
    from append_new_equivs_ids_on [OF h' assms(1) ids] have "ids_on S h'" .
    with False cr(1) ca sx s h' assms(2) show ?thesis
      by (simp add: confidence_resolve_def py_bind_def score_gt_def Let_def)
  qed
qed

lemma confidence_add_semmed_total:
  assumes "\<forall>d \<in> snd ` set db. complete d \<and>
             (\<exists>a. ed_equivalent_identifiers d = Some a \<and> a \<in> S)"
    and "\<forall>(k, e) \<in> set c. equivalent_identifiers e \<in> S \<and> confidence_score e \<noteq> None"
    and "ids_on S h"
  shows "\<exists>c' h'. confidence_add_semmed w db c h = Inr (c', h')"
  using assms
proof (induction db arbitrary: c h)
  case Nil
  then show ?case by simp
next
  case (Cons p db)
  obtain k d where p: "p = (k, d)" by (cases p)
  from Cons.prems(1) obtain a where d: "complete d" "ed_equivalent_identifiers d = Some a" "a \<in> S"
    by (auto simp: p)
  from Cons.prems(1) have rest: "\<forall>d \<in> snd ` set db. complete d \<and>
             (\<exists>a. ed_equivalent_identifiers d = Some a \<and> a \<in> S)" by simp
  show ?case
  proof (cases "map_of c k")
    case None
    from create_entity_total [OF d(1)] obtain cr where
      cr: "create_entity_from_normalized d ''SemMed'' = Inr cr"
      "ed_equivalent_identifiers d = Some (equivalent_identifiers cr)" by blast
    let ?e = "cr\<lparr>confidence_score := Some (calculate_confidence h cr ''SemMed'' (1 - w))\<rparr>"
    from cr d have "equivalent_identifiers ?e \<in> S \<and> confidence_score ?e \<noteq> None" by simp
    with Cons.prems(2)
    have "\<forall>(k, e) \<in> set (AList.update k ?e c).
        equivalent_identifiers e \<in> S \<and> confidence_score e \<noteq> None"
      by (auto dest: update_set_cases)
    from Cons.IH [OF rest this Cons.prems(3)] None cr(1) show ?thesis
      by (simp add: p py_bind_def)
  next
    case (Some existing)
    then have "(k, existing) \<in> set c" by (rule map_of_SomeD)
    with Cons.prems(2) have ex: "equivalent_identifiers existing \<in> S"
      "confidence_score existing \<noteq> None" by auto
    from confidence_resolve_total [OF Cons.prems(3) ex d, of w] obtain e' h' where
      e': "confidence_resolve h w existing d = Inr (e', h')" "ids_on S h'"
      "equivalent_identifiers e' \<in> S \<and> confidence_score e' \<noteq> None" by blast
    with Cons.prems(2)
    have "\<forall>(k, e) \<in> set (AList.update k e' c).
        equivalent_identifiers e \<in> S \<and> confidence_score e \<noteq> None"
      by (auto dest: update_set_cases)
    from Cons.IH [OF rest this e'(2)] Some e'(1) show ?thesis
      by (simp add: p py_bind_def)
  qed
qed

lemma confidence_based_merge_total:
  assumes "well_formed h A" and "well_formed h B"
  shows "\<exists>c h'. confidence_based_merge h w A B = Inr (c, h')"
proof -
  let ?S = "addresses A \<union> addresses B"
  note r = well_formed_records [OF assms]
  from r(1) have "\<forall>d \<in> snd ` set A. complete d" by blast
  from confidence_add_primekg_total [OF this] obtain c1 where
    c1: "confidence_add_primekg h w A [] = Inr c1" ..
  have "\<forall>(k, e) \<in> set c1. equivalent_identifiers e \<in> ?S \<and> confidence_score e \<noteq> None"
  proof (rule confidence_add_primekg_inv [OF c1])
    show "\<forall>(k, e) \<in> set []. equivalent_identifiers e \<in> ?S \<and> confidence_score e \<noteq> None"
      by simp
    show "equivalent_identifiers
            (e\<lparr>confidence_score := Some (calculate_confidence h e ''PrimeKG'' w)\<rparr>) \<in> ?S \<and>
          confidence_score
            (e\<lparr>confidence_score := Some (calculate_confidence h e ''PrimeKG'' w)\<rparr>) \<noteq> None"
      if "d \<in> snd ` set A" "create_entity_from_normalized d ''PrimeKG'' = Inr e" for d e
      using r(1) that(1) create_entity_address [OF that(2)] by auto
  qed
  from confidence_add_semmed_total [OF r(2) this well_formed_ids_on [OF assms]] c1
  show ?thesis by (simp add: confidence_based_merge_def py_bind_def)
qed

subsection \<open>Complete databases: the type-based merge returns\<close>

lemma collect_entities_total:
  "\<forall>d \<in> snd ` set db. complete d \<Longrightarrow> \<exists>xs. collect_entities src db = Inr xs"
proof (induction db)
  case Nil
  then show ?case by simp
next
  case (Cons p db)
  obtain k d where p: "p = (k, d)" by (cases p)
  from Cons.prems have "complete d" by (simp add: p)
  from create_entity_total [OF this] obtain e where
    "create_entity_from_normalized d src = Inr e" by blast
  with Cons.IH Cons.prems show ?case
    by (auto simp: p py_bind_def)
qed

lemma max_loop_total:
  "confidence_score best \<noteq> None \<Longrightarrow> \<forall>e \<in> set es. confidence_score e \<noteq> None \<Longrightarrow>
     \<exists>r. max_loop best es = Inr r"
proof (induction es arbitrary: best)
  case Nil
  then show ?case by simp
next
  case (Cons e es)
  from Cons.prems obtain sb se where
    s: "confidence_score best = Some sb" "confidence_score e = Some se" by auto
  from Cons.prems Cons.IH [of "if se > sb then e else best"] s
  show ?case by (simp add: py_bind_def score_gt_def)
qed

lemma select_best_total:
  assumes "es \<noteq> []" and "\<forall>e \<in> set es. confidence_score e \<noteq> None"
  shows "\<exists>b. select_best es = Inr b"
proof (cases es)
  case Nil
  with assms(1) show ?thesis by simp
next
  case (Cons e rest)
  from assms(2) max_loop_total [of e rest] obtain r where "max_loop e rest = Inr r"
    by (auto simp: Cons)
  then show ?thesis
    by (simp add: Cons select_best_def max_by_score_def py_bind_def)
qed

lemma select_groups_total:
  "\<forall>(k, es) \<in> set groups. es \<noteq> [] \<and> (\<forall>e \<in> set es. confidence_score e \<noteq> None) \<Longrightarrow>
     \<exists>c'. select_groups groups c = Inr c'"
proof (induction groups arbitrary: c)
  case Nil
  then show ?case by simp
next
  case (Cons g groups)
  obtain k es where g: "g = (k, es)" by (cases g)
  from Cons.prems have "es \<noteq> []" "\<forall>e \<in> set es. confidence_score e \<noteq> None"
    by (simp_all add: g)
  from select_best_total [OF this] obtain b where "select_best es = Inr b" ..
  with Cons.IH Cons.prems show ?case by (simp add: g py_bind_def)
qed

lemma group_fold_nonempty:
  "\<forall>(k, es) \<in> set groups. es \<noteq> [] \<Longrightarrow>
   \<forall>(k, es) \<in> set (fold (\<lambda>p groups. group_append groups p) xs groups). es \<noteq> []"
proof (induction xs arbitrary: groups)
  case Nil
  then show ?case by simp
next
  case (Cons p xs)
  from Cons.prems have "\<forall>(k, es) \<in> set (group_append groups p). es \<noteq> []"
    unfolding group_append_def by (auto dest!: update_set_cases)
  from Cons.IH [OF this] show ?case by simp
qed

lemma type_based_merge_total:
  assumes "\<forall>d \<in> snd ` set A \<union> snd ` set B. complete d"
  shows "\<exists>c. type_based_merge A B = Inr c"
proof -
  from assms have "\<forall>d \<in> snd ` set A. complete d" by blast
  from collect_entities_total [OF this] obtain xa where
    xa: "collect_entities ''PrimeKG'' A = Inr xa" ..
  from assms have "\<forall>d \<in> snd ` set B. complete d" by blast
  from collect_entities_total [OF this] obtain xb where
    xb: "collect_entities ''SemMed'' B = Inr xb" ..
  let ?G = "fold (\<lambda>p groups. group_append groups p) (xa @ xb) []"
  have "\<forall>(k, e) \<in> set xa. confidence_score e \<noteq> None"
    by (rule collect_entities_inv [OF xa]) simp
  moreover have "\<forall>(k, e) \<in> set xb. confidence_score e \<noteq> None"
    by (rule collect_entities_inv [OF xb]) simp
  ultimately have "\<forall>(k, e) \<in> set (xa @ xb). confidence_score e \<noteq> None" by auto
  then have s: "\<forall>(k, es) \<in> set ?G. \<forall>e \<in> set es. confidence_score e \<noteq> None"
    by (intro group_fold_inv) simp_all
  have n: "\<forall>(k, es) \<in> set ?G. es \<noteq> []" by (rule group_fold_nonempty) simp
  from s n have "\<forall>(k, es) \<in> set ?G. es \<noteq> [] \<and> (\<forall>e \<in> set es. confidence_score e \<noteq> None)"
    by fastforce
  from select_groups_total [OF this] xa xb show ?thesis
    by (simp add: type_based_merge_def py_bind_def)
qed

lemma merges_return:
  assumes "well_formed h A" and "well_formed h B"
  shows "(\<exists>c h'. union_merge h A B = Inr (c, h')) \<and>
         (\<exists>c h'. intersection_merge h A B = Inr (c, h')) \<and>
         (\<forall>w. \<exists>c h'. confidence_based_merge h w A B = Inr (c, h')) \<and>
         (\<exists>c. type_based_merge A B = Inr c)"
proof (intro conjI allI)
  show "\<exists>c h'. union_merge h A B = Inr (c, h')"
    by (rule union_merge_total [OF assms])
  show "\<exists>c h'. intersection_merge h A B = Inr (c, h')"
    by (rule intersection_merge_total [OF assms])
  show "\<exists>c h'. confidence_based_merge h w A B = Inr (c, h')" for w
    by (rule confidence_based_merge_total [OF assms])
  have "\<forall>d \<in> snd ` set A \<union> snd ` set B. complete d"
    using well_formedD(1) [OF assms(1)] well_formedD(1) [OF assms(2)] by blast
  then show "\<exists>c. type_based_merge A B = Inr c" by (rule type_based_merge_total)
qed

lemma ex_well_formed:
  "well_formed ex_store ex_primekg" "well_formed ex_store ex_semmed"
  by (simp_all add: well_formed_def complete_def ex_store_def ex_primekg_def ex_semmed_def)

section \<open>Main results for the merge engine\<close>

text \<open>
  C6. The union merge of two well-formed databases returns. Whenever it returns, the
  keys of its result are the keys of the PrimeKG database together with the keys of the
  SemMed database, each once. For two dictionaries (no key twice) the size of the result
  is therefore \<open>|A| + |B| - |A \<inter> B|\<close>, and \<open>|A \<inter> B|\<close> is the size of what the intersection
  merge returns on the same input.
\<close>

theorem union_merge_size_law:
  "(well_formed h primekg_data \<and> well_formed h semmed_data \<longrightarrow>
      (\<exists>combined h'. union_merge h primekg_data semmed_data = Inr (combined, h'))) \<and>
   (\<forall>combined h'. union_merge h primekg_data semmed_data = Inr (combined, h') \<longrightarrow>
      fst ` set combined = fst ` set primekg_data \<union> fst ` set semmed_data \<and>
      distinct (map fst combined) \<and>
      (distinct (map fst primekg_data) \<and> distinct (map fst semmed_data) \<longrightarrow>
         length combined + card (fst ` set primekg_data \<inter> fst ` set semmed_data)
           = length primekg_data + length semmed_data \<and>
         (\<forall>common hi. intersection_merge h primekg_data semmed_data = Inr (common, hi) \<longrightarrow>
            length combined + length common = length primekg_data + length semmed_data)))"
proof (rule conjI)
  show "well_formed h primekg_data \<and> well_formed h semmed_data \<longrightarrow>
      (\<exists>combined h'. union_merge h primekg_data semmed_data = Inr (combined, h'))"
    using union_merge_total [of h primekg_data semmed_data] by blast
  show "\<forall>combined h'. union_merge h primekg_data semmed_data = Inr (combined, h') \<longrightarrow>
      fst ` set combined = fst ` set primekg_data \<union> fst ` set semmed_data \<and>
      distinct (map fst combined) \<and>
      (distinct (map fst primekg_data) \<and> distinct (map fst semmed_data) \<longrightarrow>
         length combined + card (fst ` set primekg_data \<inter> fst ` set semmed_data)
           = length primekg_data + length semmed_data \<and>
         (\<forall>common hi. intersection_merge h primekg_data semmed_data = Inr (common, hi) \<longrightarrow>
            length combined + length common = length primekg_data + length semmed_data))"
  proof (intro allI impI)
    fix combined h'
    assume "union_merge h primekg_data semmed_data = Inr (combined, h')"
    then show "fst ` set combined = fst ` set primekg_data \<union> fst ` set semmed_data \<and>
      distinct (map fst combined) \<and>
      (distinct (map fst primekg_data) \<and> distinct (map fst semmed_data) \<longrightarrow>
         length combined + card (fst ` set primekg_data \<inter> fst ` set semmed_data)
           = length primekg_data + length semmed_data \<and>
         (\<forall>common hi. intersection_merge h primekg_data semmed_data = Inr (common, hi) \<longrightarrow>
            length combined + length common = length primekg_data + length semmed_data))"
      by (rule union_merge_keys_size)
  qed
qed

theorem union_merge_size_law_witness:
  "well_formed ex_store ex_primekg \<and> well_formed ex_store ex_semmed \<and>
   distinct (map fst ex_primekg) \<and> distinct (map fst ex_semmed) \<and>
   (\<exists>combined h'. union_merge ex_store ex_primekg ex_semmed = Inr (combined, h') \<and>
      fst ` set combined = fst ` set ex_primekg \<union> fst ` set ex_semmed \<and>
      length combined + card (fst ` set ex_primekg \<inter> fst ` set ex_semmed) = 2 + 2)"
proof -
  note t = union_merge_size_law [of ex_store ex_primekg ex_semmed]
  from t [THEN conjunct1] ex_well_formed obtain combined h' where
    e: "union_merge ex_store ex_primekg ex_semmed = Inr (combined, h')" by blast
  from t [THEN conjunct2] e
  have r: "fst ` set combined = fst ` set ex_primekg \<union> fst ` set ex_semmed \<and>
      distinct (map fst combined) \<and>
      (distinct (map fst ex_primekg) \<and> distinct (map fst ex_semmed) \<longrightarrow>
         length combined + card (fst ` set ex_primekg \<inter> fst ` set ex_semmed)
           = length ex_primekg + length ex_semmed \<and>
         (\<forall>common hi. intersection_merge ex_store ex_primekg ex_semmed = Inr (common, hi) \<longrightarrow>
            length combined + length common = length ex_primekg + length ex_semmed))"
    by (elim allE impE) assumption
  from r have k: "fst ` set combined = fst ` set ex_primekg \<union> fst ` set ex_semmed" ..
  from r ex_databases(1,2)
  have "length combined + card (fst ` set ex_primekg \<inter> fst ` set ex_semmed)
          = length ex_primekg + length ex_semmed"
    by (elim conjE impE) (rule conjI)
  then have "length combined + card (fst ` set ex_primekg \<inter> fst ` set ex_semmed) = 2 + 2"
    by (simp only: ex_databases(3,4))
  with e k have "\<exists>combined h'. union_merge ex_store ex_primekg ex_semmed = Inr (combined, h') \<and>
      fst ` set combined = fst ` set ex_primekg \<union> fst ` set ex_semmed \<and>
      length combined + card (fst ` set ex_primekg \<inter> fst ` set ex_semmed) = 2 + 2"
    by blast
  with ex_well_formed ex_databases(1,2) show ?thesis by (intro conjI)
qed

text \<open>
  C7. Let every record of both databases list its own \<open>id.identifier\<close> among the
  equivalent identifiers it points to. Then, whichever of the four strategies is run,
  every entity of the result it returns lists its own identifier among its equivalent
  identifiers, as the store holds them after the merge. On well-formed databases each of
  the four strategies returns.
\<close>

theorem self_membership_preserved:
  assumes "\<forall>d \<in> snd ` set primekg_data \<union> snd ` set semmed_data. record_self_member h d"
  shows "(well_formed h primekg_data \<and> well_formed h semmed_data \<longrightarrow>
            (\<exists>c h'. union_merge h primekg_data semmed_data = Inr (c, h')) \<and>
            (\<exists>c h'. intersection_merge h primekg_data semmed_data = Inr (c, h')) \<and>
            (\<forall>w. \<exists>c h'. confidence_based_merge h w primekg_data semmed_data = Inr (c, h')) \<and>
            (\<exists>c. type_based_merge primekg_data semmed_data = Inr c)) \<and>
         (\<forall>c h'. union_merge h primekg_data semmed_data = Inr (c, h') \<longrightarrow>
            (\<forall>(k, e) \<in> set c. self_member h' e)) \<and>
         (\<forall>c h'. intersection_merge h primekg_data semmed_data = Inr (c, h') \<longrightarrow>
            (\<forall>(k, e) \<in> set c. self_member h' e)) \<and>
         (\<forall>w c h'. confidence_based_merge h w primekg_data semmed_data = Inr (c, h') \<longrightarrow>
            (\<forall>(k, e) \<in> set c. self_member h' e)) \<and>
         (\<forall>c. type_based_merge primekg_data semmed_data = Inr c \<longrightarrow>
            (\<forall>(k, e) \<in> set c. self_member h e))"
proof (rule conjI)
  show "well_formed h primekg_data \<and> well_formed h semmed_data \<longrightarrow>
            (\<exists>c h'. union_merge h primekg_data semmed_data = Inr (c, h')) \<and>
            (\<exists>c h'. intersection_merge h primekg_data semmed_data = Inr (c, h')) \<and>
            (\<forall>w. \<exists>c h'. confidence_based_merge h w primekg_data semmed_data = Inr (c, h')) \<and>
            (\<exists>c. type_based_merge primekg_data semmed_data = Inr c)"
    using merges_return [of h primekg_data semmed_data] by blast
  show "(\<forall>c h'. union_merge h primekg_data semmed_data = Inr (c, h') \<longrightarrow>
            (\<forall>(k, e) \<in> set c. self_member h' e)) \<and>
         (\<forall>c h'. intersection_merge h primekg_data semmed_data = Inr (c, h') \<longrightarrow>
            (\<forall>(k, e) \<in> set c. self_member h' e)) \<and>
         (\<forall>w c h'. confidence_based_merge h w primekg_data semmed_data = Inr (c, h') \<longrightarrow>
            (\<forall>(k, e) \<in> set c. self_member h' e)) \<and>
         (\<forall>c. type_based_merge primekg_data semmed_data = Inr c \<longrightarrow>
            (\<forall>(k, e) \<in> set c. self_member h e))"
    by (rule self_member_returned [OF assms])
qed

theorem self_membership_preserved_witness:
  "well_formed ex_store ex_primekg \<and> well_formed ex_store ex_semmed \<and>
   union_merge ex_store ex_primekg ex_semmed = Inr (ex_union_out, ex_store_after) \<and>
   list_all (\<lambda>(k, e). self_member ex_store_after e) ex_union_out \<and>
   type_based_merge ex_primekg ex_semmed = Inr ex_type_based_out \<and>
   list_all (\<lambda>(k, e). self_member ex_store e) ex_type_based_out"
proof -
  note t = self_membership_preserved [OF ex_records_self_member]
  from t ex_union_merge have "\<forall>(k, e) \<in> set ex_union_out. self_member ex_store_after e"
    by blast
  then have a: "list_all (\<lambda>(k, e). self_member ex_store_after e) ex_union_out"
    by (simp only: list_all_iff)
  from t ex_type_based_merge
  have "\<forall>(k, e) \<in> set ex_type_based_out. self_member ex_store e"
    by blast
  then have b: "list_all (\<lambda>(k, e). self_member ex_store e) ex_type_based_out"
    by (simp only: list_all_iff)
  from ex_well_formed ex_union_merge a ex_type_based_merge b show ?thesis by (intro conjI)
qed

text \<open>
  C4 (as the code has it). After the union and the intersection merge no entity has a
  confidence score. The score of the confidence-based merge is at most 1 for every
  weight, and at least 0 when the PrimeKG weight lies between 0 and 1: the code clamps
  from above only. After the type-based merge the score is the integer priority of the
  entity's types, between 0 and 10. On well-formed databases each of the four strategies
  returns.
\<close>

theorem confidence_score_ranges:
  "(well_formed h primekg_data \<and> well_formed h semmed_data \<longrightarrow>
      (\<exists>c h'. union_merge h primekg_data semmed_data = Inr (c, h')) \<and>
      (\<exists>c h'. intersection_merge h primekg_data semmed_data = Inr (c, h')) \<and>
      (\<forall>w. \<exists>c h'. confidence_based_merge h w primekg_data semmed_data = Inr (c, h')) \<and>
      (\<exists>c. type_based_merge primekg_data semmed_data = Inr c)) \<and>
   (\<forall>c h'. union_merge h primekg_data semmed_data = Inr (c, h') \<longrightarrow>
      (\<forall>(k, e) \<in> set c. confidence_score e = None)) \<and>
   (\<forall>c h'. intersection_merge h primekg_data semmed_data = Inr (c, h') \<longrightarrow>
      (\<forall>(k, e) \<in> set c. confidence_score e = None)) \<and>
   (\<forall>w c h'. confidence_based_merge h w primekg_data semmed_data = Inr (c, h') \<longrightarrow>
      (\<forall>(k, e) \<in> set c. \<exists>s. confidence_score e = Some s \<and> s \<le> 1 \<and>
                               (0 \<le> w \<and> w \<le> 1 \<longrightarrow> 0 \<le> s))) \<and>
   (\<forall>c. type_based_merge primekg_data semmed_data = Inr c \<longrightarrow>
      (\<forall>(k, e) \<in> set c. \<exists>p. confidence_score e = Some (of_int p) \<and> 0 \<le> p \<and> p \<le> 10))"
proof (rule conjI)
  show "well_formed h primekg_data \<and> well_formed h semmed_data \<longrightarrow>
      (\<exists>c h'. union_merge h primekg_data semmed_data = Inr (c, h')) \<and>
      (\<exists>c h'. intersection_merge h primekg_data semmed_data = Inr (c, h')) \<and>
      (\<forall>w. \<exists>c h'. confidence_based_merge h w primekg_data semmed_data = Inr (c, h')) \<and>
      (\<exists>c. type_based_merge primekg_data semmed_data = Inr c)"
    using merges_return [of h primekg_data semmed_data] by blast
  show "(\<forall>c h'. union_merge h primekg_data semmed_data = Inr (c, h') \<longrightarrow>
      (\<forall>(k, e) \<in> set c. confidence_score e = None)) \<and>
   (\<forall>c h'. intersection_merge h primekg_data semmed_data = Inr (c, h') \<longrightarrow>
      (\<forall>(k, e) \<in> set c. confidence_score e = None)) \<and>
   (\<forall>w c h'. confidence_based_merge h w primekg_data semmed_data = Inr (c, h') \<longrightarrow>
      (\<forall>(k, e) \<in> set c. \<exists>s. confidence_score e = Some s \<and> s \<le> 1 \<and>
                               (0 \<le> w \<and> w \<le> 1 \<longrightarrow> 0 \<le> s))) \<and>
   (\<forall>c. type_based_merge primekg_data semmed_data = Inr c \<longrightarrow>
      (\<forall>(k, e) \<in> set c. \<exists>p. confidence_score e = Some (of_int p) \<and> 0 \<le> p \<and> p \<le> 10))"
    by (rule confidence_score_returned)
qed

theorem confidence_score_ranges_witness:
  "well_formed ex_store ex_primekg \<and> well_formed ex_store ex_semmed \<and>
   confidence_based_merge ex_store 0.6 ex_primekg ex_semmed
     = Inr (ex_confidence_out, ex_store_after) \<and>
   list_all (\<lambda>(k, e). case confidence_score e of None \<Rightarrow> False | Some s \<Rightarrow> 0 \<le> s \<and> s \<le> 1)
     ex_confidence_out \<and>
   type_based_merge ex_primekg ex_semmed = Inr ex_type_based_out \<and>
   list_all (\<lambda>(k, e). case confidence_score e of None \<Rightarrow> False | Some s \<Rightarrow> 0 \<le> s \<and> s \<le> 10)
     ex_type_based_out"
proof -
  note t = confidence_score_ranges [of ex_store ex_primekg ex_semmed]
  note tc = t [THEN conjunct2, THEN conjunct2, THEN conjunct2, THEN conjunct1,
               THEN spec, THEN spec, THEN spec, THEN mp, OF ex_confidence_based_merge]
  note tt = t [THEN conjunct2, THEN conjunct2, THEN conjunct2, THEN conjunct2,
               THEN spec, THEN mp, OF ex_type_based_merge]
  have w: "(0::real) \<le> 0.6 \<and> (0.6::real) \<le> 1" by simp
  have 1: "\<exists>s. confidence_score e = Some s \<and> s \<le> 1 \<and> 0 \<le> s"
    if "(k, e) \<in> set ex_confidence_out" for k e
  proof -
    from tc that obtain s where "confidence_score e = Some s" "s \<le> 1"
      "(0::real) \<le> 0.6 \<and> (0.6::real) \<le> 1 \<longrightarrow> 0 \<le> s" by blast
    with w show ?thesis by blast
  qed
  have 2: "\<exists>p. confidence_score e = Some (of_int p) \<and> 0 \<le> p \<and> p \<le> (10::int)"
    if "(k, e) \<in> set ex_type_based_out" for k e
    using tt that by blast
  have a: "list_all (\<lambda>(k, e). case confidence_score e of None \<Rightarrow> False
                                | Some s \<Rightarrow> 0 \<le> s \<and> s \<le> 1) ex_confidence_out"
    unfolding list_all_iff
  proof (intro ballI)
    fix x assume x: "x \<in> set ex_confidence_out"
    obtain k e where ke: "x = (k, e)" by (cases x)
    from 1 [of k e] x ke obtain s where "confidence_score e = Some s" "s \<le> 1" "0 \<le> s"
      by blast
    then show "case x of (k, e) \<Rightarrow> case confidence_score e of None \<Rightarrow> False
                                | Some s \<Rightarrow> 0 \<le> s \<and> s \<le> 1"
      by (simp add: ke)
  qed
  have b: "list_all (\<lambda>(k, e). case confidence_score e of None \<Rightarrow> False
                                | Some s \<Rightarrow> 0 \<le> s \<and> s \<le> 10) ex_type_based_out"
    unfolding list_all_iff
  proof (intro ballI)
    fix x assume x: "x \<in> set ex_type_based_out"
    obtain k e where ke: "x = (k, e)" by (cases x)
    from 2 [of k e] x ke obtain p where "confidence_score e = Some (of_int p)" "0 \<le> p"
      "p \<le> (10::int)" by blast
    then show "case x of (k, e) \<Rightarrow> case confidence_score e of None \<Rightarrow> False
                                | Some s \<Rightarrow> 0 \<le> s \<and> s \<le> 10"
      by (simp add: ke)
  qed
  from ex_well_formed a b ex_confidence_based_merge ex_type_based_merge
  show ?thesis by (intro conjI)
qed

text \<open>
  C4 (as stated) fails twice. The type-based merge stores the priority 10 as the score of
  the merged entity \<open>A:1\<close>. With the PrimeKG weight 1.5 the confidence-based merge gives
  the SemMed entity \<open>D:4\<close> the score -0.39.
\<close>

theorem confidence_score_counterexample:
  "type_based_merge ex_primekg ex_semmed = Inr ex_type_based_out \<and>
   map_option confidence_score (map_of ex_type_based_out ''A:1'') = Some (Some 10) \<and>
   \<not> (10::real) \<le> 1 \<and>
   confidence_based_merge ex_store (3 / 2) ex_primekg ex_semmed
     = Inr (ex_confidence_heavy_out, ex_store_after) \<and>
   map_option confidence_score (map_of ex_confidence_heavy_out ''D:4'')
     = Some (Some (- (39 / 100))) \<and>
   \<not> (0::real) \<le> - (39 / 100)"
  using ex_type_based_merge ex_confidence_heavy_merge
  by (simp add: ex_type_based_out_def ex_confidence_heavy_out_def)

text \<open>
  C8. The priority of an entity is the largest ranking of its types, and 0 when it has no
  ranked type. The type-based merge of two dictionaries of complete records returns.
  Whenever it returns, each key of either database is a key of the result: a key of one
  database alone keeps that database's entity; for a key of both, the SemMed entity is
  kept when its priority is strictly higher and the PrimeKG entity otherwise, and the
  kept entity's sources are both databases. The kept entity carries its priority as its
  score.
\<close>

theorem type_based_merge_representative:
  assumes "distinct (map fst primekg_data)" and "distinct (map fst semmed_data)"
  shows "(\<forall>tys. get_type_priority tys = Max (set (0 # map ranking tys))) \<and>
    ((\<forall>d \<in> snd ` set primekg_data \<union> snd ` set semmed_data. complete d) \<longrightarrow>
       (\<exists>combined. type_based_merge primekg_data semmed_data = Inr combined)) \<and>
    (\<forall>combined. type_based_merge primekg_data semmed_data = Inr combined \<longrightarrow>
      (\<forall>k. case (map_of primekg_data k, map_of semmed_data k) of
         (None, None) \<Rightarrow> map_of combined k = None
       | (Some dp, None) \<Rightarrow>
           (\<exists>ep. create_entity_from_normalized dp ''PrimeKG'' = Inr ep \<and>
                 map_of combined k = Some (with_priority ep))
       | (None, Some ds) \<Rightarrow>
           (\<exists>es. create_entity_from_normalized ds ''SemMed'' = Inr es \<and>
                 map_of combined k = Some (with_priority es))
       | (Some dp, Some ds) \<Rightarrow>
           (\<exists>ep es. create_entity_from_normalized dp ''PrimeKG'' = Inr ep \<and>
                    create_entity_from_normalized ds ''SemMed'' = Inr es \<and>
                    map_of combined k =
                      Some ((if get_type_priority (types es) > get_type_priority (types ep)
                             then with_priority es else with_priority ep)
                            \<lparr>source_databases := {''PrimeKG'', ''SemMed''}\<rparr>))))"
proof (intro conjI allI impI)
  show "get_type_priority tys = Max (set (0 # map ranking tys))" for tys
    by (rule get_type_priority_ranking)
next
  assume "\<forall>d \<in> snd ` set primekg_data \<union> snd ` set semmed_data. complete d"
  then show "\<exists>combined. type_based_merge primekg_data semmed_data = Inr combined"
    by (rule type_based_merge_total)
next
  fix combined k
  assume m: "type_based_merge primekg_data semmed_data = Inr combined"
  from type_based_merge_returned [OF m assms]
  show "case (map_of primekg_data k, map_of semmed_data k) of
         (None, None) \<Rightarrow> map_of combined k = None
       | (Some dp, None) \<Rightarrow>
           (\<exists>ep. create_entity_from_normalized dp ''PrimeKG'' = Inr ep \<and>
                 map_of combined k = Some (with_priority ep))
       | (None, Some ds) \<Rightarrow>
           (\<exists>es. create_entity_from_normalized ds ''SemMed'' = Inr es \<and>
                 map_of combined k = Some (with_priority es))
       | (Some dp, Some ds) \<Rightarrow>
           (\<exists>ep es. create_entity_from_normalized dp ''PrimeKG'' = Inr ep \<and>
                    create_entity_from_normalized ds ''SemMed'' = Inr es \<and>
                    map_of combined k =
                      Some ((if get_type_priority (types es) > get_type_priority (types ep)
                             then with_priority es else with_priority ep)
                            \<lparr>source_databases := {''PrimeKG'', ''SemMed''}\<rparr>))"
    by blast
qed

theorem type_based_merge_representative_witness:
  "distinct (map fst ex_primekg) \<and> distinct (map fst ex_semmed) \<and>
   type_based_merge ex_primekg ex_semmed = Inr ex_type_based_out \<and>
   map_option source_databases (map_of ex_type_based_out ''A:1'')
     = Some {''PrimeKG'', ''SemMed''} \<and>
   get_type_priority [''biolink:Gene'', ''biolink:NamedThing'']
     = Max (set [0, ranking ''biolink:Gene'', ranking ''biolink:NamedThing''])"
proof -
  note t = type_based_merge_representative [OF ex_databases(1,2)]
  from t have p: "get_type_priority [''biolink:Gene'', ''biolink:NamedThing'']
     = Max (set (0 # map ranking [''biolink:Gene'', ''biolink:NamedThing'']))"
    by blast
  have a: "map_of ex_primekg ''A:1'' = Some (snd (hd ex_primekg))"
    and b: "map_of ex_semmed ''A:1'' = Some (snd (hd ex_semmed))"
    by (simp_all add: ex_primekg_def ex_semmed_def)
  from t ex_type_based_merge
  have "case (map_of ex_primekg ''A:1'', map_of ex_semmed ''A:1'') of
       (None, None) \<Rightarrow> map_of ex_type_based_out ''A:1'' = None
     | (Some dp, None) \<Rightarrow>
         (\<exists>ep. create_entity_from_normalized dp ''PrimeKG'' = Inr ep \<and>
               map_of ex_type_based_out ''A:1'' = Some (with_priority ep))
     | (None, Some ds) \<Rightarrow>
         (\<exists>es. create_entity_from_normalized ds ''SemMed'' = Inr es \<and>
               map_of ex_type_based_out ''A:1'' = Some (with_priority es))
     | (Some dp, Some ds) \<Rightarrow>
         (\<exists>ep es. create_entity_from_normalized dp ''PrimeKG'' = Inr ep \<and>
                  create_entity_from_normalized ds ''SemMed'' = Inr es \<and>
                  map_of ex_type_based_out ''A:1'' =
                    Some ((if get_type_priority (types es) > get_type_priority (types ep)
                           then with_priority es else with_priority ep)
                          \<lparr>source_databases := {''PrimeKG'', ''SemMed''}\<rparr>))"
    by blast
  then obtain x where "map_of ex_type_based_out ''A:1''
      = Some (x\<lparr>source_databases := {''PrimeKG'', ''SemMed''}\<rparr>)"
    unfolding a b by auto
  then have "map_option source_databases (map_of ex_type_based_out ''A:1'')
     = Some {''PrimeKG'', ''SemMed''}" by simp
  with p ex_type_based_merge ex_databases(1,2) show ?thesis by simp
qed

end
